theory Spec2Isabelle
  imports Main
begin

section \<open>Values\<close>

text \<open>
  The sanitizer works on JSON-like JavaScript values: block data, sanitizer rules and
  the static properties of tool classes are all such values. Numbers are opaque leaves
  for this module (it never computes with them), functions are opaque and carry only
  an identity. An object is the list of its own enumerable properties in insertion
  order, and it inherits the properties of \<open>Object.prototype\<close>. Arrays and strings have
  their length and their indexed elements; the other built-in and inherited properties
  of arrays, strings, functions, numbers and booleans, and the assignment to a property
  named \<open>__proto__\<close>, which sets the prototype of an object, are not part of the model.
\<close>

datatype jsval =
    JUndef
  | JNull
  | JBool bool
  | JNum int
  | JStr string
  | JFun nat
  | JArr "jsval list"
  | JObj "(string \<times> jsval) list"

type_synonym obj = "(string \<times> jsval) list"

datatype error = TypeError

text \<open>\<open>typeof v === 'object'\<close>: true of objects, arrays and \<open>null\<close>.\<close>

fun typeofObject :: "jsval \<Rightarrow> bool" where
  "typeofObject JNull = True"
| "typeofObject (JArr xs) = True"
| "typeofObject (JObj kvs) = True"
| "typeofObject v = False"

fun typeofBoolean :: "jsval \<Rightarrow> bool" where
  "typeofBoolean (JBool b) = True"
| "typeofBoolean v = False"

text \<open>
  Modelled from the spec: \<open>isFunction\<close> of the editor's utilities, which is not part of
  this file. It holds of a callable value.
\<close>

fun isFunction :: "jsval \<Rightarrow> bool" where
  "isFunction (JFun f) = True"
| "isFunction v = False"

text \<open>JavaScript truthiness, as used by \<open>!x\<close>, \<open>x || y\<close> and \<open>x && y\<close>.\<close>

fun truthy :: "jsval \<Rightarrow> bool" where
  "truthy JUndef = False"
| "truthy JNull = False"
| "truthy (JBool b) = b"
| "truthy (JNum n) = (n \<noteq> 0)"
| "truthy (JStr s) = (s \<noteq> [])"
| "truthy v = True"

subsection \<open>Properties\<close>

text \<open>Array indices and string positions are property names in decimal notation.\<close>

definition digit :: "nat \<Rightarrow> char" where
  "digit d = char_of (48 + d)"

fun decimal :: "nat \<Rightarrow> string" where
  "decimal n = (if n < 10 then [digit n] else decimal (n div 10) @ [digit (n mod 10)])"

declare decimal.simps [simp del]

definition indexed :: "'a list \<Rightarrow> (string \<times> 'a) list" where
  "indexed xs = map (\<lambda>(i, x). (decimal i, x)) (enumerate 0 xs)"

text \<open>
  The own enumerable properties that \<open>for ... in\<close> with the \<open>hasOwnProperty\<close> filter,
  \<open>Object.assign\<close> (as a source) and \<open>Object.entries\<close> see.
\<close>

fun ownEntries :: "jsval \<Rightarrow> obj" where
  "ownEntries (JObj kvs) = kvs"
| "ownEntries (JArr xs) = indexed xs"
| "ownEntries (JStr s) = indexed (map (\<lambda>c. JStr [c]) s)"
| "ownEntries v = []"

definition lookup :: "obj \<Rightarrow> string \<Rightarrow> jsval option" where
  "lookup kvs k = map_of kvs k"

text \<open>
  \<open>Tools.available[name]\<close> and \<open>Tools.inline[name]\<close>, the lookup of a name in the
  registry: a name that is not registered reads \<open>undefined\<close>.
\<close>

definition objGet :: "obj \<Rightarrow> string \<Rightarrow> jsval" where
  "objGet kvs k = (case lookup kvs k of None \<Rightarrow> JUndef | Some v \<Rightarrow> v)"

text \<open>
  The properties that every object inherits from \<open>Object.prototype\<close>: eleven built-in
  functions, and the accessor \<open>__proto__\<close>, which reads \<open>Object.prototype\<close> itself, an
  object with no enumerable property.
\<close>

definition objectPrototype :: "string \<Rightarrow> jsval option" where
  "objectPrototype = map_of
     [(''constructor'', JFun 0), (''hasOwnProperty'', JFun 1), (''isPrototypeOf'', JFun 2),
      (''propertyIsEnumerable'', JFun 3), (''toLocaleString'', JFun 4),
      (''toString'', JFun 5), (''valueOf'', JFun 6), (''__defineGetter__'', JFun 7),
      (''__defineSetter__'', JFun 8), (''__lookupGetter__'', JFun 9),
      (''__lookupSetter__'', JFun 10), (''__proto__'', JObj [])]"

text \<open>
  \<open>o[k]\<close> on an object created by \<open>{}\<close> or by an object literal: its own property, or
  else the inherited one, or else \<open>undefined\<close>.
\<close>

definition protoGet :: "obj \<Rightarrow> string \<Rightarrow> jsval" where
  "protoGet kvs k =
     (case lookup kvs k of
        Some v \<Rightarrow> v
      | None \<Rightarrow> (case objectPrototype k of Some v \<Rightarrow> v | None \<Rightarrow> JUndef))"

text \<open>\<open>v[k]\<close> on any value: reading a property of \<open>null\<close> or \<open>undefined\<close> throws.\<close>

fun getProp :: "jsval \<Rightarrow> string \<Rightarrow> error + jsval" where
  "getProp JUndef k = Inl TypeError"
| "getProp JNull k = Inl TypeError"
| "getProp (JObj kvs) k = Inr (protoGet kvs k)"
| "getProp (JArr xs) k =
     Inr (if k = ''length'' then JNum (int (length xs)) else objGet (indexed xs) k)"
| "getProp (JStr s) k =
     Inr (if k = ''length'' then JNum (int (length s))
          else objGet (indexed (map (\<lambda>c. JStr [c]) s)) k)"
| "getProp v k = Inr JUndef"

text \<open>\<open>o[k] = v\<close>: an existing property keeps its place, a new one goes last.\<close>

fun setProp :: "obj \<Rightarrow> string \<Rightarrow> jsval \<Rightarrow> obj" where
  "setProp [] k v = [(k, v)]"
| "setProp ((k', v') # kvs) k v =
     (if k' = k then (k, v) # kvs else (k', v') # setProp kvs k v)"

text \<open>\<open>Object.assign(target, source)\<close>; a \<open>null\<close> or \<open>undefined\<close> source is skipped.\<close>

definition objAssign :: "obj \<Rightarrow> jsval \<Rightarrow> obj" where
  "objAssign target source = foldl (\<lambda>t (k, v). setProp t k v) target (ownEntries source)"

section \<open>Tree sanitizer\<close>

text \<open>
  The markup-stripping function \<open>sanitizeHTML\<close> of the package \<open>sanitize-html\<close> is a
  parameter. Every call of it is recorded, with its two arguments, in a call log that
  the sanitizing functions return beside their result.
\<close>

type_synonym cleaner = "string \<Rightarrow> jsval \<Rightarrow> string"
type_synonym call = "string \<times> jsval"

text \<open>\<open>clean(taintString, customConfig = {})\<close>: the default stands for \<open>undefined\<close>.\<close>

definition clean :: "cleaner \<Rightarrow> string \<Rightarrow> jsval \<Rightarrow> string \<times> call list" where
  "clean sanitizeHTML taintString customConfig =
     (let cfg = (if customConfig = JUndef then JObj [] else customConfig)
      in (sanitizeHTML taintString cfg, [(taintString, cfg)]))"

definition isRule :: "jsval \<Rightarrow> bool" where
  "isRule config \<longleftrightarrow> typeofObject config \<or> typeofBoolean config \<or> isFunction config"

text \<open>
  Rule-shaped in the words of the specification, and of the comment on \<open>isRule\<close>: a
  mapping, a boolean or a callable predicate; \<open>null\<close>, \<open>undefined\<close> and numbers are not.
\<close>

fun ruleShaped :: "jsval \<Rightarrow> bool" where
  "ruleShaped (JObj kvs) = True"
| "ruleShaped (JBool b) = True"
| "ruleShaped (JFun f) = True"
| "ruleShaped v = False"

definition cleanOneItem :: "cleaner \<Rightarrow> string \<Rightarrow> jsval \<Rightarrow> string \<times> call list" where
  "cleanOneItem sanitizeHTML taintString rule =
     (if typeofObject rule then clean sanitizeHTML taintString rule
      else if rule = JBool False then clean sanitizeHTML taintString (JObj [])
      else (taintString, []))"

text \<open>
  \<open>deepSanitize\<close> with \<open>cleanArray\<close> (the \<open>map\<close> over the items) and \<open>cleanObject\<close>
  (the \<open>for ... in\<close> loop, with \<open>cleanData\<close> as accumulator). \<open>null\<close> has type
  \<open>'object'\<close> and is no array, so it takes the \<open>cleanObject\<close> branch, whose loop over
  \<open>null\<close> runs no iteration.
\<close>

fun deepSanitize :: "cleaner \<Rightarrow> jsval \<Rightarrow> jsval \<Rightarrow> error + (jsval \<times> call list)"
  and cleanArray :: "cleaner \<Rightarrow> jsval list \<Rightarrow> jsval \<Rightarrow> error + (jsval list \<times> call list)"
  and cleanObject :: "cleaner \<Rightarrow> obj \<Rightarrow> jsval \<Rightarrow> obj \<Rightarrow> error + (jsval \<times> call list)"
where
  "deepSanitize c (JArr xs) rules =
     (case cleanArray c xs rules of
        Inl e \<Rightarrow> Inl e
      | Inr (ys, l) \<Rightarrow> Inr (JArr ys, l))"
| "deepSanitize c (JObj kvs) rules = cleanObject c kvs rules []"
| "deepSanitize c JNull rules = cleanObject c [] rules []"
| "deepSanitize c (JStr s) rules =
     (case cleanOneItem c s rules of (s', l) \<Rightarrow> Inr (JStr s', l))"
| "deepSanitize c JUndef rules = Inr (JUndef, [])"
| "deepSanitize c (JBool b) rules = Inr (JBool b, [])"
| "deepSanitize c (JNum n) rules = Inr (JNum n, [])"
| "deepSanitize c (JFun f) rules = Inr (JFun f, [])"
| "cleanArray c [] ruleForItem = Inr ([], [])"
| "cleanArray c (x # xs) ruleForItem =
     (case deepSanitize c x ruleForItem of
        Inl e \<Rightarrow> Inl e
      | Inr (y, l1) \<Rightarrow>
          (case cleanArray c xs ruleForItem of
             Inl e \<Rightarrow> Inl e
           | Inr (ys, l2) \<Rightarrow> Inr (y # ys, l1 @ l2)))"
| "cleanObject c [] rules cleanData = Inr (JObj cleanData, [])"
| "cleanObject c ((fieldName, currentIterationItem) # rest) rules cleanData =
     (case getProp rules fieldName of
        Inl e \<Rightarrow> Inl e
      | Inr r \<Rightarrow>
          (case deepSanitize c currentIterationItem (if isRule r then r else rules) of
             Inl e \<Rightarrow> Inl e
           | Inr (v, l1) \<Rightarrow>
               (case cleanObject c rest rules (setProp cleanData fieldName v) of
                  Inl e \<Rightarrow> Inl e
                | Inr (res, l2) \<Rightarrow> Inr (res, l1 @ l2))))"

subsection \<open>Shapes\<close>

text \<open>
  Data with no \<open>null\<close> in it, whose objects have no key twice, as objects do; and
  two values of the same shape, which differ in their strings at most.
\<close>

fun nullFreeData :: "jsval \<Rightarrow> bool"
  and nullFreeItems :: "jsval list \<Rightarrow> bool"
  and nullFreeFields :: "obj \<Rightarrow> bool"
where
  "nullFreeData JNull = False"
| "nullFreeData (JArr xs) = nullFreeItems xs"
| "nullFreeData (JObj kvs) = (distinct (map fst kvs) \<and> nullFreeFields kvs)"
| "nullFreeData JUndef = True"
| "nullFreeData (JBool b) = True"
| "nullFreeData (JNum n) = True"
| "nullFreeData (JStr s) = True"
| "nullFreeData (JFun f) = True"
| "nullFreeItems [] = True"
| "nullFreeItems (x # xs) = (nullFreeData x \<and> nullFreeItems xs)"
| "nullFreeFields [] = True"
| "nullFreeFields ((k, v) # kvs) = (nullFreeData v \<and> nullFreeFields kvs)"

fun sameShape :: "jsval \<Rightarrow> jsval \<Rightarrow> bool"
  and sameShapeItems :: "jsval list \<Rightarrow> jsval list \<Rightarrow> bool"
  and sameShapeFields :: "obj \<Rightarrow> obj \<Rightarrow> bool"
where
  "sameShape (JArr xs) w = (case w of JArr ys \<Rightarrow> sameShapeItems xs ys | _ \<Rightarrow> False)"
| "sameShape (JObj kvs) w = (case w of JObj kvs' \<Rightarrow> sameShapeFields kvs kvs' | _ \<Rightarrow> False)"
| "sameShape (JStr s) w = (case w of JStr t \<Rightarrow> True | _ \<Rightarrow> False)"
| "sameShape JUndef w = (w = JUndef)"
| "sameShape JNull w = (w = JNull)"
| "sameShape (JBool b) w = (w = JBool b)"
| "sameShape (JNum n) w = (w = JNum n)"
| "sameShape (JFun f) w = (w = JFun f)"
| "sameShapeItems [] ys = (ys = [])"
| "sameShapeItems (x # xs) ys =
     (case ys of [] \<Rightarrow> False | y # ys' \<Rightarrow> sameShape x y \<and> sameShapeItems xs ys')"
| "sameShapeFields [] kvs' = (kvs' = [])"
| "sameShapeFields ((k, v) # kvs) kvs' =
     (case kvs' of [] \<Rightarrow> False
      | (k', v') # rest \<Rightarrow> k' = k \<and> sameShape v v' \<and> sameShapeFields kvs rest)"

section \<open>Tool registry\<close>

text \<open>
  The module \<open>Tools\<close> of the editor is a collaborator of the sanitizer and a parameter
  here: the name under which a tool class publishes its sanitizer rules
  (\<open>INTERNAL_SETTINGS.SANITIZE_CONFIG\<close>), the tool classes by name (\<open>available\<close>), the
  inline tool classes by name (\<open>inline\<close>) and the settings of a tool
  (\<open>getToolSettings\<close>). A tool class is the object of its static properties. The
  registry does not change during a session.
\<close>

text \<open>
  Modelled from the spec: the \<open>inlineToolbar\<close> entry of a tool's settings, whose type
  declaration is not part of this file. It says whether and which inline-formatting
  tools are enabled for the tool: \<open>false\<close>, \<open>true\<close> meaning all, or an explicit list of
  tool names; the entry may be absent.
\<close>

datatype inlineToolbarSetting = Absent | Flag bool | Names "string list"

record toolSettings =
  inlineToolbar :: inlineToolbarSetting

record tools =
  SANITIZE_CONFIG :: string
  available :: obj
  inline :: obj
  getToolSettings :: "string \<Rightarrow> toolSettings"

text \<open>
  Modelled from the spec: \<open>isEmpty\<close> of the editor's utilities, which is not part of
  this file. It holds of a rule set that is empty, a mapping with no entry.
\<close>

definition isEmpty :: "jsval \<Rightarrow> bool" where
  "isEmpty v \<longleftrightarrow> v = JObj []"

section \<open>Rule composer\<close>

text \<open>
  The rule sets that the composer builds and hands out are objects with an identity:
  \<open>getInlineToolsConfig\<close> writes into the object it got from
  \<open>getAllInlineToolsConfig\<close>. They live in a store, from references to the objects'
  properties. The values of the properties are never written to and stay plain values.
  The state of a \<open>Sanitizer\<close> instance is the store, its two caches and, for the claims
  about it, the log of the queries made to the registry. A call that throws is over:
  the state it leaves behind is not modelled.
\<close>

datatype query = QAvailable string | QToolSettings string | QInline string | QInlineEntries

record sanitizer =
  heap :: "nat \<Rightarrow> obj"
  nextRef :: nat
  configCache :: "string \<rightharpoonup> nat"
  inlineToolsConfigCache :: "nat option"
  queries :: "query list"

definition initial :: sanitizer where
  "initial = \<lparr>heap = (\<lambda>r. []), nextRef = 0, configCache = Map.empty,
     inlineToolsConfigCache = None, queries = []\<rparr>"

text \<open>\<open>{}\<close>: a new empty object.\<close>

definition newObject :: "sanitizer \<Rightarrow> nat \<times> sanitizer" where
  "newObject s =
     (nextRef s, s\<lparr>heap := (heap s)(nextRef s := []), nextRef := Suc (nextRef s)\<rparr>)"

text \<open>\<open>config[k] = v\<close> on the object behind a reference.\<close>

definition heapSet :: "nat \<Rightarrow> string \<Rightarrow> jsval \<Rightarrow> sanitizer \<Rightarrow> sanitizer" where
  "heapSet r k v s = s\<lparr>heap := (heap s)(r := setProp (heap s r) k v)\<rparr>"

definition query :: "query list \<Rightarrow> sanitizer \<Rightarrow> sanitizer" where
  "query qs s = s\<lparr>queries := queries s @ qs\<rparr>"

text \<open>
  The loop of \<open>getAllInlineToolsConfig\<close> over \<open>Object.entries(Tools.inline)\<close>, on the
  properties of \<open>config\<close>.
\<close>

fun assignInlineTools :: "tools \<Rightarrow> obj \<Rightarrow> obj \<Rightarrow> error + obj" where
  "assignInlineTools T [] config = Inr config"
| "assignInlineTools T ((name, inlineTool) # rest) config =
     (case getProp inlineTool (SANITIZE_CONFIG T) of
        Inl e \<Rightarrow> Inl e
      | Inr rules \<Rightarrow> assignInlineTools T rest (objAssign config rules))"

definition getAllInlineToolsConfig :: "tools \<Rightarrow> sanitizer \<Rightarrow> error + (nat \<times> sanitizer)" where
  "getAllInlineToolsConfig T s =
     (case inlineToolsConfigCache s of
        Some cached \<Rightarrow> Inr (cached, s)
      | None \<Rightarrow>
          (case newObject s of (config, s1) \<Rightarrow>
            (case assignInlineTools T (inline T) (heap s1 config) of
               Inl e \<Rightarrow> Inl e
             | Inr content \<Rightarrow>
                 Inr (config,
                   (query [QInlineEntries] s1)
                     \<lparr>heap := (heap s1)(config := content),
                      inlineToolsConfigCache := Some config\<rparr>))))"

text \<open>
  The loop of \<open>getInlineToolsConfig\<close> over the names of the enabled inline tools, on the
  properties of \<open>config\<close>.
\<close>

fun assignEnabledTools :: "tools \<Rightarrow> string list \<Rightarrow> obj \<Rightarrow> error + obj" where
  "assignEnabledTools T [] config = Inr config"
| "assignEnabledTools T (inlineToolName # rest) config =
     (case getProp (objGet (inline T) inlineToolName) (SANITIZE_CONFIG T) of
        Inl e \<Rightarrow> Inl e
      | Inr rules \<Rightarrow> assignEnabledTools T rest (objAssign config rules))"

text \<open>\<open>toolsConfig.inlineToolbar || []\<close>: an array, also an empty one, is truthy.\<close>

fun enabledOrEmpty :: "inlineToolbarSetting \<Rightarrow> inlineToolbarSetting" where
  "enabledOrEmpty Absent = Names []"
| "enabledOrEmpty (Flag False) = Names []"
| "enabledOrEmpty e = e"

definition allowLinebreaks :: "nat \<Rightarrow> sanitizer \<Rightarrow> sanitizer" where
  "allowLinebreaks config s =
     heapSet config ''wbr'' (JBool True) (heapSet config ''br'' (JBool True) s)"

definition getInlineToolsConfig ::
  "tools \<Rightarrow> string \<Rightarrow> sanitizer \<Rightarrow> error + (nat \<times> sanitizer)" where
  "getInlineToolsConfig T name s =
     (let toolsConfig = getToolSettings T name;
          enableInlineTools = enabledOrEmpty (inlineToolbar toolsConfig)
      in case newObject (query [QToolSettings name] s) of (config, s1) \<Rightarrow>
        (if enableInlineTools = Flag True then
           (case getAllInlineToolsConfig T s1 of
              Inl e \<Rightarrow> Inl e
            | Inr (config', s2) \<Rightarrow> Inr (config', allowLinebreaks config' s2))
         else
           (case enableInlineTools of
              Names names \<Rightarrow>
                (case assignEnabledTools T names (heap s1 config) of
                   Inl e \<Rightarrow> Inl e
                 | Inr content \<Rightarrow>
                     Inr (config,
                       allowLinebreaks config
                         ((query (map QInline names) s1)
                            \<lparr>heap := (heap s1)(config := content)\<rparr>)))
            | _ \<Rightarrow> Inl TypeError)))"

text \<open>
  The loop of \<open>composeToolConfig\<close> over the fields of the tool's rules, on the
  properties of \<open>toolConfig\<close>; \<open>baseConfig\<close> is read, not written.
\<close>

definition composeField :: "obj \<Rightarrow> jsval \<Rightarrow> jsval" where
  "composeField baseConfig rule =
     (if typeofObject rule then JObj (objAssign (objAssign [] (JObj baseConfig)) rule)
      else rule)"

definition composeFields :: "obj \<Rightarrow> jsval \<Rightarrow> obj \<Rightarrow> obj" where
  "composeFields baseConfig toolRules toolConfig =
     foldl (\<lambda>cfg (fieldName, rule). setProp cfg fieldName (composeField baseConfig rule))
       toolConfig (ownEntries toolRules)"

text \<open>
  The test of \<open>composeToolConfig\<close> for a tool with no rules of its own:
  \<open>!toolClass.sanitize || (toolClass[sanitizeGetter] && _.isEmpty(toolClass[sanitizeGetter]))\<close>.
\<close>

definition noOwnRules :: "tools \<Rightarrow> jsval \<Rightarrow> error + bool" where
  "noOwnRules T toolClass =
     (case getProp toolClass ''sanitize'' of
        Inl e \<Rightarrow> Inl e
      | Inr rules \<Rightarrow>
          if \<not> truthy rules then Inr True
          else (case getProp toolClass (SANITIZE_CONFIG T) of
                  Inl e \<Rightarrow> Inl e
                | Inr g \<Rightarrow> Inr (truthy g \<and> isEmpty g)))"

text \<open>
  What \<open>composeToolConfig\<close> returns: a rule-set object of the store, or a built-in value
  that the cache object inherits.
\<close>

datatype config = Ref nat | Builtin jsval

definition configValue :: "sanitizer \<Rightarrow> config \<Rightarrow> jsval" where
  "configValue s cfg = (case cfg of Ref r \<Rightarrow> JObj (heap s r) | Builtin v \<Rightarrow> v)"

text \<open>
  \<open>this.configCache[toolName]\<close>: the cache is an object created by \<open>{}\<close>, so for a name
  with no entry the read gives what the cache inherits from \<open>Object.prototype\<close>. Every
  value found is an object or a function and passes the test \<open>if (...)\<close>.
\<close>

definition cacheGet :: "sanitizer \<Rightarrow> string \<Rightarrow> config option" where
  "cacheGet s toolName =
     (case configCache s toolName of
        Some cached \<Rightarrow> Some (Ref cached)
      | None \<Rightarrow> map_option Builtin (objectPrototype toolName))"

definition composeToolConfig ::
  "tools \<Rightarrow> string \<Rightarrow> sanitizer \<Rightarrow> error + (config \<times> sanitizer)" where
  "composeToolConfig T toolName s =
     (case cacheGet s toolName of
        Some cached \<Rightarrow> Inr (cached, s)
      | None \<Rightarrow>
          (let toolClass = objGet (available T) toolName
           in case getInlineToolsConfig T toolName (query [QAvailable toolName] s) of
                Inl e \<Rightarrow> Inl e
              | Inr (baseConfig, s1) \<Rightarrow>
                  (case noOwnRules T toolClass of
                     Inl e \<Rightarrow> Inl e
                   | Inr True \<Rightarrow> Inr (Ref baseConfig, s1)
                   | Inr False \<Rightarrow>
                       (case getProp toolClass ''sanitize'' of
                          Inl e \<Rightarrow> Inl e
                        | Inr toolRules \<Rightarrow>
                            (case newObject s1 of (toolConfig, s2) \<Rightarrow>
                               Inr (Ref toolConfig,
                                 s2\<lparr>heap := (heap s2)(toolConfig :=
                                        composeFields (heap s2 baseConfig) toolRules
                                          (heap s2 toolConfig)),
                                    configCache := (configCache s2)(toolName \<mapsto> toolConfig)\<rparr>))))))"

section \<open>Batches\<close>

record block =
  tool :: string
  data :: jsval

text \<open>
  \<open>sanitizeBlocks\<close>: the \<open>map\<close> over the blocks, in order, each a block object of its
  own. The rules handed to \<open>deepSanitize\<close> are the value of what \<open>composeToolConfig\<close>
  returned.
\<close>

definition sanitizeBlock ::
  "cleaner \<Rightarrow> jsval \<Rightarrow> block \<Rightarrow> error + (block \<times> call list)" where
  "sanitizeBlock c toolConfig b =
     (if isEmpty toolConfig then Inr (b, [])
      else (case deepSanitize c (data b) toolConfig of
              Inl e \<Rightarrow> Inl e
            | Inr (d, l) \<Rightarrow> Inr (b\<lparr>data := d\<rparr>, l)))"

fun sanitizeBlocks ::
  "tools \<Rightarrow> cleaner \<Rightarrow> block list \<Rightarrow> sanitizer \<Rightarrow> error + (block list \<times> call list \<times> sanitizer)"
where
  "sanitizeBlocks T c [] s = Inr ([], [], s)"
| "sanitizeBlocks T c (b # blocksData) s =
     (case composeToolConfig T (tool b) s of
        Inl e \<Rightarrow> Inl e
      | Inr (toolConfig, s1) \<Rightarrow>
          (case sanitizeBlock c (configValue s1 toolConfig) b of
             Inl e \<Rightarrow> Inl e
           | Inr (b', l1) \<Rightarrow>
               (case sanitizeBlocks T c blocksData s1 of
                  Inl e \<Rightarrow> Inl e
                | Inr (bs', l2, s2) \<Rightarrow> Inr (b' # bs', l1 @ l2, s2))))"

section \<open>Sessions\<close>

text \<open>
  The rule set that \<open>getAllInlineToolsConfig\<close> computes from the registry when its
  cache is empty, and a rule set after the two assignments that allow line breaks.
\<close>

definition allInlineRules :: "tools \<Rightarrow> error + obj" where
  "allInlineRules T = assignInlineTools T (inline T) []"

definition withLinebreaks :: "obj \<Rightarrow> obj" where
  "withLinebreaks config = setProp (setProp config ''br'' (JBool True)) ''wbr'' (JBool True)"

text \<open>
  What holds of the caches in every state of a session: the cached objects have been
  allocated, the object of the inline cache holds the rules of all inline tools, with
  or without the line-break entries, and only tools with rules of their own are in the
  cache of composed configurations.
\<close>

definition cachesOK :: "tools \<Rightarrow> sanitizer \<Rightarrow> bool" where
  "cachesOK T s \<longleftrightarrow>
     (\<forall>r. inlineToolsConfigCache s = Some r \<longrightarrow>
        r < nextRef s \<and>
        (\<exists>u. allInlineRules T = Inr u \<and> (heap s r = u \<or> heap s r = withLinebreaks u))) \<and>
     (\<forall>n r. configCache s n = Some r \<longrightarrow>
        r < nextRef s \<and> noOwnRules T (objGet (available T) n) = Inr False)"

text \<open>
  How a later state relates to an earlier one: nothing is deallocated, the caches keep
  their entries, and an object changes at most by getting the line-break entries.
\<close>

definition grows :: "sanitizer \<Rightarrow> sanitizer \<Rightarrow> bool" where
  "grows s s' \<longleftrightarrow>
     nextRef s \<le> nextRef s' \<and>
     (\<forall>n r. configCache s n = Some r \<longrightarrow> configCache s' n = Some r) \<and>
     (\<forall>r. inlineToolsConfigCache s = Some r \<longrightarrow> inlineToolsConfigCache s' = Some r) \<and>
     (\<forall>x. x < nextRef s \<longrightarrow>
        heap s' x = heap s x \<or> heap s' x = withLinebreaks (heap s x))"

text \<open>Queries to the registry of inline tools only.\<close>

definition inlineQueries :: "query list \<Rightarrow> bool" where
  "inlineQueries qs \<longleftrightarrow> (\<forall>q \<in> set qs. q = QInlineEntries \<or> (\<exists>m. q = QInline m))"

text \<open>
  \<open>session T s s'\<close>: the state \<open>s'\<close> is reached from \<open>s\<close> by calls of the methods of the
  instance that return.
\<close>

inductive session :: "tools \<Rightarrow> sanitizer \<Rightarrow> sanitizer \<Rightarrow> bool" for T :: tools where
  start: "session T s s"
| getAll: "session T s s1 \<Longrightarrow> getAllInlineToolsConfig T s1 = Inr (r, s2) \<Longrightarrow> session T s s2"
| getInline: "session T s s1 \<Longrightarrow> getInlineToolsConfig T n s1 = Inr (r, s2) \<Longrightarrow> session T s s2"
| compose: "session T s s1 \<Longrightarrow> composeToolConfig T n s1 = Inr (r, s2) \<Longrightarrow> session T s s2"
| batch: "session T s s1 \<Longrightarrow> sanitizeBlocks T c bs s1 = Inr (bs', cs, s2) \<Longrightarrow> session T s s2"




section \<open>An example registry\<close>

text \<open>
  Two inline tools and five block tools: \<open>paragraph\<close> declares \<open>{f: {a: true}}\<close> and
  enables the inline tool \<open>link\<close>; \<open>strict\<close> declares \<open>{text: {br: false}}\<close> and, like
  \<open>raw\<close>, whose rules are \<open>true\<close>, enables all inline tools; \<open>header\<close> and \<open>plain\<close>
  declare no rules, \<open>header\<close> enables \<open>bold\<close> and \<open>link\<close>, \<open>plain\<close> none.
\<close>

definition exampleTools :: tools where
  "exampleTools =
     \<lparr>SANITIZE_CONFIG = ''sanitize'',
      available =
        [(''paragraph'', JObj [(''sanitize'', JObj [(''f'', JObj [(''a'', JBool True)])])]),
         (''strict'', JObj [(''sanitize'', JObj [(''text'', JObj [(''br'', JBool False)])])]),
         (''header'', JObj []),
         (''raw'', JObj [(''sanitize'', JBool True)]),
         (''plain'', JObj [])],
      inline =
        [(''link'', JObj [(''sanitize'',
            JObj [(''a'', JObj [(''href'', JBool True)]), (''b'', JBool True)])]),
         (''bold'', JObj [(''sanitize'', JObj [(''b'', JObj []), (''br'', JBool False)])])],
      getToolSettings = (\<lambda>name.
        \<lparr>inlineToolbar =
           (if name = ''plain'' then Flag False
            else if name = ''header'' then Names [''bold'', ''link'']
            else if name = ''paragraph'' then Names [''link'']
            else Flag True)\<rparr>)\<rparr>"

text \<open>The value that a call of \<open>composeToolConfig\<close> returns.\<close>

definition returned :: "error + (config \<times> sanitizer) \<Rightarrow> jsval option" where
  "returned x = (case x of Inl e \<Rightarrow> None | Inr (cfg, s) \<Rightarrow> Some (configValue s cfg))"

section \<open>Properties of the tree sanitizer\<close>

lemma lookup_setProp:
  "lookup (setProp kvs k v) k' = (if k' = k then Some v else lookup kvs k')"
  by (induction kvs) (auto simp: lookup_def)

text \<open>A field that the rest of the loop does not visit keeps what \<open>cleanData\<close> holds.\<close>

lemma cleanObject_other:
  "cleanObject c kvs rules acc = Inr (res, cs) \<Longrightarrow> f \<notin> fst ` set kvs \<Longrightarrow>
   \<exists>res'. res = JObj res' \<and> lookup res' f = lookup acc f"
proof (induction kvs arbitrary: acc res cs)
  case Nil
  then show ?case by auto
next
  case (Cons kv kvs)
  obtain k v where kv: "kv = (k, v)" by (cases kv)
  from Cons.prems show ?case
    by (auto simp: kv lookup_setProp split: sum.splits dest!: Cons.IH)
qed

text \<open>
  What the loop of \<open>cleanObject\<close> does for one field: it reads the field's entry of the
  rules, picks that entry or the parent rules, and stores the sanitized value.
\<close>

lemma cleanObject_field:
  "cleanObject c kvs rules acc = Inr (res, cs) \<Longrightarrow> distinct (map fst kvs) \<Longrightarrow>
   (f, v) \<in> set kvs \<Longrightarrow>
   \<exists>res' r v' l. res = JObj res' \<and> getProp rules f = Inr r \<and>
     deepSanitize c v (if isRule r then r else rules) = Inr (v', l) \<and>
     lookup res' f = Some v' \<and> set l \<subseteq> set cs"
proof (induction kvs arbitrary: acc res cs)
  case Nil
  then show ?case by simp
next
  case (Cons kv kvs)
  obtain k x where kv: "kv = (k, x)" by (cases kv)
  from Cons.prems(1) obtain r y l1 l2 where
    r: "getProp rules k = Inr r" and
    y: "deepSanitize c x (if isRule r then r else rules) = Inr (y, l1)" and
    rest: "cleanObject c kvs rules (setProp acc k y) = Inr (res, l2)" and
    cs: "cs = l1 @ l2"
    by (auto simp: kv split: sum.splits)
  show ?case
  proof (cases "(f, v) = (k, x)")
    case True
    with Cons.prems(2) have "f \<notin> fst ` set kvs" by (simp add: kv)
    from cleanObject_other [OF rest this] True r y cs show ?thesis
      by (auto simp: lookup_setProp)
  next
    case False
    with Cons.prems have "(f, v) \<in> set kvs" "distinct (map fst kvs)" by (auto simp: kv)
    from Cons.IH [OF rest this(2) this(1)] cs show ?thesis by fastforce
  qed
qed

text \<open>
  Numbers, booleans, \<open>undefined\<close> and functions come back as they are, and the cleaning
  function is not called.
\<close>

lemma deepSanitize_primitives:
  "deepSanitize c JUndef rules = Inr (JUndef, [])"
  "deepSanitize c (JBool b) rules = Inr (JBool b, [])"
  "deepSanitize c (JNum n) rules = Inr (JNum n, [])"
  "deepSanitize c (JFun f) rules = Inr (JFun f, [])"
  by simp_all

text \<open>
  C1. The claim is that every primitive that is no string (number, boolean, null or
  absent) is returned unchanged and never reaches the cleaning function. For \<open>null\<close>
  the code does not return its input: \<open>typeof null\<close> is \<open>'object'\<close>, so \<open>null\<close> is
  handed to \<open>cleanObject\<close>, which returns a new empty object. The cleaning function is
  not called.
\<close>

theorem deepSanitize_null:
  "deepSanitize c JNull rules = Inr (JObj [], [])"
  by simp

text \<open>
  C5. The claim is that a sequence or mapping comes back in the same shape, with only
  string leaves changed. A \<open>null\<close> leaf of a sequence or of a mapping comes back as an
  empty object, whatever the rules are.
\<close>

theorem deepSanitize_null_leaf:
  "deepSanitize c (JArr [JNum 1, JNull]) rules = Inr (JArr [JNum 1, JObj []], []) \<and>
   deepSanitize c (JObj [(''caption'', JNull)]) (JObj rs) =
     Inr (JObj [(''caption'', JObj [])], [])"
  by simp

lemma setProp_append:
  "k \<notin> fst ` set acc \<Longrightarrow> setProp acc k v = acc @ [(k, v)]"
  by (induction acc) auto

lemma sameShapeFields_append:
  "sameShapeFields kvs res \<Longrightarrow> sameShape v v' \<Longrightarrow>
   sameShapeFields (kvs @ [(k, v)]) (res @ [(k, v')])"
  by (induction kvs arbitrary: res) (auto split: list.splits)

text \<open>
  Data with no \<open>null\<close> in it keeps its shape: a sequence comes back as a sequence of
  the same length, a mapping as a mapping with the same keys in the same order, a
  string as a string, and every other leaf as it is.
\<close>

lemma deepSanitize_shape:
  "nullFreeData v \<Longrightarrow> deepSanitize c v rules = Inr (v', cs) \<Longrightarrow> sameShape v v'"
  "nullFreeItems xs \<Longrightarrow> cleanArray c xs rules = Inr (ys, cs) \<Longrightarrow> sameShapeItems xs ys"
  "nullFreeFields kvs \<Longrightarrow> distinct (map fst kvs) \<Longrightarrow> fst ` set kvs \<inter> fst ` set acc = {} \<Longrightarrow>
   sameShapeFields pre acc \<Longrightarrow>
   cleanObject c kvs rules acc = Inr (w, cs) \<Longrightarrow>
   \<exists>res. w = JObj res \<and> sameShapeFields (pre @ kvs) res"
proof (induction c v rules and c xs rules and c kvs rules acc
    arbitrary: v' cs and ys cs and w cs pre
    rule: deepSanitize_cleanArray_cleanObject.induct)
  case (1 c xs rules)
  then show ?case by (auto split: sum.splits)
next
  case (2 c kvs rules)
  from "2.IH" [of "[]" v' cs] "2.prems" show ?case by auto
next
  case (3 c rules)
  then show ?case by auto
next
  case (4 c s rules)
  then show ?case by (auto split: prod.splits)
next
  case (5 c rules)
  then show ?case by auto
next
  case (6 c b rules)
  then show ?case by auto
next
  case (7 c n rules)
  then show ?case by auto
next
  case (8 c f rules)
  then show ?case by auto
next
  case (9 c ruleForItem)
  then show ?case by simp
next
  case (10 c x xs ruleForItem)
  then show ?case by (auto split: sum.splits)
next
  case (11 c rules cleanData)
  then show ?case by auto
next
  case (12 c fieldName currentIterationItem rest rules cleanData)
  from "12.prems"(5) obtain r y l1 l2 where
    r: "getProp rules fieldName = Inr r" and
    y: "deepSanitize c currentIterationItem (if isRule r then r else rules) = Inr (y, l1)" and
    rest: "cleanObject c rest rules (setProp cleanData fieldName y) = Inr (w, l2)"
    by (auto split: sum.splits)
  from "12.prems" have wf: "nullFreeData currentIterationItem" "nullFreeFields rest"
    and d: "distinct (map fst rest)" and k: "fieldName \<notin> fst ` set rest"
    and ka: "fieldName \<notin> fst ` set cleanData"
    and disj: "fst ` set rest \<inter> fst ` set cleanData = {}"
    by auto
  from "12.IH"(1) [OF r wf(1) y] have sy: "sameShape currentIterationItem y" .
  from ka have sp: "setProp cleanData fieldName y = cleanData @ [(fieldName, y)]"
    by (rule setProp_append)
  have disj': "fst ` set rest \<inter> fst ` set (setProp cleanData fieldName y) = {}"
    using disj k by (auto simp: sp)
  have "sameShapeFields (pre @ [(fieldName, currentIterationItem)])
      (setProp cleanData fieldName y)"
    unfolding sp using "12.prems"(4) sy by (rule sameShapeFields_append)
  from "12.IH"(2) [OF r y refl wf(2) d disj' this rest] show ?case by simp
qed

text \<open>
  A field with the name of a property that the rule set inherits gets the inherited
  function as its rule, and its string is left as it is.
\<close>

lemma inherited_rule_leaves_string:
  "deepSanitize c (JObj [(''constructor'', JStr s)]) (JObj [(''b'', JBool True)])
     = Inr (JObj [(''constructor'', JStr s)], [])"
  by (simp add: protoGet_def lookup_def objectPrototype_def isRule_def cleanOneItem_def)

text \<open>
  A field whose entry in the rule set is a value of which \<open>isRule\<close> is false (a number,
  a string) is sanitized with the parent rule set: the field of the result holds what
  \<open>deepSanitize\<close> returns for the field's value and the parent rules.
\<close>

lemma nonRule_field_uses_parent_rules:
  assumes "deepSanitize c (JObj kvs) (JObj rules) = Inr (res, cs)"
    and "distinct (map fst kvs)"
    and "(f, v) \<in> set kvs"
    and "lookup rules f = Some r"
    and "\<not> isRule r"
  shows "\<exists>res' v' l. res = JObj res' \<and> deepSanitize c v (JObj rules) = Inr (v', l) \<and>
           lookup res' f = Some v' \<and> set l \<subseteq> set cs"
proof -
  from assms(1) have "cleanObject c kvs (JObj rules) [] = Inr (res, cs)" by simp
  from cleanObject_field [OF this assms(2,3)] assms(4,5) show ?thesis
    by (auto simp: protoGet_def)
qed

text \<open>
  \<open>isRule\<close> holds of every rule-shaped value, and of two kinds of values that are not
  rule-shaped: \<open>null\<close> and arrays, whose type is \<open>'object'\<close>.
\<close>

lemma isRule_ruleShaped:
  "isRule r \<longleftrightarrow> ruleShaped r \<or> r = JNull \<or> (\<exists>xs. r = JArr xs)"
  by (cases r) (simp_all add: isRule_def)

text \<open>
  C7. The claim is that in a mapping, a field whose name has an entry in the rule set
  that is not rule-shaped is sanitized with the parent rule set, not with that entry.
  \<open>null\<close> is not rule-shaped, yet for a field whose entry is \<open>null\<close> the code takes
  \<open>null\<close> as the rule of the field: the cleaning function is called with the string and
  \<open>null\<close>, not with the parent rule set.
\<close>

theorem null_rule_not_parent_rules:
  "\<not> ruleShaped JNull \<and>
   deepSanitize c (JObj [(''text'', JStr s)]) (JObj [(''text'', JNull), (''b'', JBool True)])
     = Inr (JObj [(''text'', JStr (c s JNull))], [(s, JNull)])"
  by (simp add: protoGet_def lookup_def isRule_def cleanOneItem_def clean_def)

text \<open>
  C10. \<open>isRule\<close> is true of \<open>null\<close>. So in a mapping, a string field whose entry in the
  rule set is \<open>null\<close> is not sanitized with the parent rule set: \<open>cleanOneItem\<close> gets
  \<open>null\<close> as the rule, which has type \<open>'object'\<close>, and the cleaning function is called
  with the string and \<open>null\<close>.
\<close>

theorem null_rule_is_passed_to_cleaner:
  assumes "deepSanitize c (JObj kvs) (JObj rules) = Inr (res, cs)"
    and "distinct (map fst kvs)"
    and "(f, JStr s) \<in> set kvs"
    and "lookup rules f = Some JNull"
  shows "isRule JNull \<and>
         (\<exists>res'. res = JObj res' \<and> lookup res' f = Some (JStr (c s JNull))) \<and>
         (s, JNull) \<in> set cs"
proof -
  have n: "isRule JNull" by (simp add: isRule_def)
  from assms(1) have "cleanObject c kvs (JObj rules) [] = Inr (res, cs)" by simp
  from cleanObject_field [OF this assms(2,3)] assms(4) n show ?thesis
    by (auto simp: protoGet_def cleanOneItem_def clean_def)
qed

theorem null_rule_is_passed_to_cleaner_witness:
  "deepSanitize (\<lambda>s r. if r = JNull then ''null rule'' else ''parent rules'')
     (JObj [(''text'', JStr ''<i>x</i>'')]) (JObj [(''text'', JNull), (''b'', JBool True)])
     = Inr (JObj [(''text'', JStr ''null rule'')], [(''<i>x</i>'', JNull)]) \<and>
   distinct (map fst [(''text'', JStr ''<i>x</i>'')]) \<and>
   (''text'', JStr ''<i>x</i>'') \<in> set [(''text'', JStr ''<i>x</i>'')] \<and>
   lookup [(''text'', JNull), (''b'', JBool True)] ''text'' = Some JNull \<and>
   isRule JNull \<and>
   (\<exists>res'. JObj [(''text'', JStr ''null rule'')] = JObj res' \<and>
      lookup res' ''text'' = Some (JStr ''null rule'')) \<and>
   (''<i>x</i>'', JNull) \<in> set [(''<i>x</i>'', JNull)]"
proof -
  let ?c = "\<lambda>(s::string) r. if r = JNull then ''null rule'' else ''parent rules''"
  let ?kvs = "[(''text'', JStr ''<i>x</i>'')]"
  let ?rules = "[(''text'', JNull), (''b'', JBool True)]"
  have run: "deepSanitize ?c (JObj ?kvs) (JObj ?rules)
      = Inr (JObj [(''text'', JStr ''null rule'')], [(''<i>x</i>'', JNull)])"
    by (simp add: isRule_def protoGet_def lookup_def cleanOneItem_def clean_def)
  have d: "distinct (map fst ?kvs)" by simp
  have m: "(''text'', JStr ''<i>x</i>'') \<in> set ?kvs" by simp
  have l: "lookup ?rules ''text'' = Some JNull" by (simp add: lookup_def)
  from null_rule_is_passed_to_cleaner [OF run d m l] run d m l show ?thesis
    by simp
qed

section \<open>Properties of the rule composer\<close>

subsection \<open>Objects\<close>

lemma lookup_setProp_upd: "lookup (setProp kvs k v) = (lookup kvs)(k \<mapsto> v)"
  by (rule ext) (induction kvs, auto simp: lookup_def)

lemma setProp_same: "lookup kvs k = Some v \<Longrightarrow> setProp kvs k v = kvs"
  by (induction kvs) (auto simp: lookup_def)

lemma keys_setProp: "fst ` set (setProp kvs k v) = insert k (fst ` set kvs)"
proof -
  have "dom (lookup (setProp kvs k v)) = insert k (dom (lookup kvs))"
    by (simp add: lookup_setProp_upd)
  moreover have "lookup xs = map_of xs" for xs
    by (rule ext) (simp add: lookup_def)
  ultimately show ?thesis
    by (simp add: dom_map_of_conv_image_fst)
qed

lemma distinct_setProp:
  "distinct (map fst kvs) \<Longrightarrow> distinct (map fst (setProp kvs k v))"
  by (induction kvs) (auto simp: keys_setProp)

text \<open>
  A loop that stores one property for each entry of a list with distinct names: the
  stored properties override those the object had, the others stay.
\<close>

lemma lookup_fold_setProp:
  "distinct (map fst es) \<Longrightarrow>
   lookup (foldl (\<lambda>t (k, v). setProp t k (g v)) t es)
     = lookup t ++ map_of (map (\<lambda>(k, v). (k, g v)) es)"
proof (induction es arbitrary: t)
  case Nil
  then show ?case by simp
next
  case (Cons e es)
  obtain k v where e: "e = (k, v)" by (cases e)
  let ?M = "map_of (map (\<lambda>(k, v). (k, g v)) es)"
  from Cons.prems have k: "k \<notin> fst ` set es" and d: "distinct (map fst es)"
    by (auto simp: e)
  have "fst ` set (map (\<lambda>(k, v). (k, g v)) es) = fst ` set es"
    by force
  with k have "k \<notin> dom ?M"
    by (simp only: dom_map_of_conv_image_fst) simp
  then have Mk: "?M k = None" by (simp add: domIff)
  have "lookup (foldl (\<lambda>t (k, v). setProp t k (g v)) (setProp t k (g v)) es) x
      = (lookup t ++ ?M(k \<mapsto> g v)) x" for x
    using Mk by (simp add: Cons.IH [OF d] lookup_setProp_upd map_add_def split: option.splits)
  then show ?case by (simp add: e fun_eq_iff del: fun_upd_apply)
qed

lemma distinct_fold_setProp:
  "distinct (map fst t) \<Longrightarrow>
   distinct (map fst (foldl (\<lambda>t (k, v). setProp t k (g v)) t es))"
  by (induction es arbitrary: t) (auto simp: distinct_setProp)

lemma lookup_objAssign:
  "distinct (map fst (ownEntries source)) \<Longrightarrow>
   lookup (objAssign target source) = lookup target ++ map_of (ownEntries source)"
  using lookup_fold_setProp [of "ownEntries source" "\<lambda>v. v" target]
  by (simp add: objAssign_def case_prod_unfold)

lemma distinct_objAssign:
  "distinct (map fst target) \<Longrightarrow> distinct (map fst (objAssign target source))"
  using distinct_fold_setProp [of target "\<lambda>v. v" "ownEntries source"]
  by (simp add: objAssign_def)

lemma withLinebreaks_idem: "withLinebreaks (withLinebreaks u) = withLinebreaks u"
  by (simp add: withLinebreaks_def setProp_same lookup_setProp)


lemma withLinebreaks_allowed:
  "lookup (withLinebreaks u) ''br'' = Some (JBool True)"
  "lookup (withLinebreaks u) ''wbr'' = Some (JBool True)"
  by (simp_all add: withLinebreaks_def lookup_setProp)

lemma distinct_withLinebreaks:
  "distinct (map fst u) \<Longrightarrow> distinct (map fst (withLinebreaks u))"
  by (simp add: withLinebreaks_def distinct_setProp)

lemma distinct_assignInlineTools:
  "assignInlineTools T es t = Inr u \<Longrightarrow> distinct (map fst t) \<Longrightarrow> distinct (map fst u)"
proof (induction es arbitrary: t)
  case Nil
  then show ?case by simp
next
  case (Cons e es)
  obtain k v where e: "e = (k, v)" by (cases e)
  from Cons.prems show ?case
    by (auto simp: e distinct_objAssign split: sum.splits dest: Cons.IH)
qed

lemma distinct_assignEnabledTools:
  "assignEnabledTools T ns t = Inr u \<Longrightarrow> distinct (map fst t) \<Longrightarrow> distinct (map fst u)"
  by (induction ns arbitrary: t) (auto simp: distinct_objAssign split: sum.splits)

subsection \<open>The state of the composer\<close>

lemma query_fields [simp]:
  "heap (query qs s) = heap s"
  "nextRef (query qs s) = nextRef s"
  "configCache (query qs s) = configCache s"
  "inlineToolsConfigCache (query qs s) = inlineToolsConfigCache s"
  "queries (query qs s) = queries s @ qs"
  by (simp_all add: query_def)

lemma cachesOK_query [simp]: "cachesOK T (query qs s) = cachesOK T s"
  by (simp add: cachesOK_def)

lemma heap_allowLinebreaks:
  "heap (allowLinebreaks r s) = (heap s)(r := withLinebreaks (heap s r))"
  by (simp add: allowLinebreaks_def heapSet_def withLinebreaks_def)

lemma allowLinebreaks_fields [simp]:
  "nextRef (allowLinebreaks r s) = nextRef s"
  "configCache (allowLinebreaks r s) = configCache s"
  "inlineToolsConfigCache (allowLinebreaks r s) = inlineToolsConfigCache s"
  "queries (allowLinebreaks r s) = queries s"
  by (simp_all add: allowLinebreaks_def heapSet_def)

lemma newObject_effect:
  assumes "newObject s = (c, s1)"
  shows "c = nextRef s" "nextRef s1 = Suc (nextRef s)" "heap s1 = (heap s)(nextRef s := [])"
    "configCache s1 = configCache s" "inlineToolsConfigCache s1 = inlineToolsConfigCache s"
    "queries s1 = queries s"
  using assms by (auto simp: newObject_def)

lemma cachesOK_newObject:
  "cachesOK T s \<Longrightarrow> newObject s = (c, s1) \<Longrightarrow> cachesOK T s1"
  by (auto simp: newObject_def cachesOK_def less_Suc_eq)

lemma cachesOK_allowLinebreaks:
  "cachesOK T s \<Longrightarrow> cachesOK T (allowLinebreaks r s)"
  by (auto simp: cachesOK_def heap_allowLinebreaks withLinebreaks_idem)

lemma cachesOK_initial: "cachesOK T initial"
  by (simp add: cachesOK_def initial_def)

lemma grows_refl: "grows s s"
  by (simp add: grows_def)

lemma grows_trans:
  assumes "grows s s1" and "grows s1 s2"
  shows "grows s s2"
proof -
  have "heap s2 x = heap s x \<or> heap s2 x = withLinebreaks (heap s x)"
    if "x < nextRef s" for x
  proof -
    from that assms have "heap s1 x = heap s x \<or> heap s1 x = withLinebreaks (heap s x)"
      and "heap s2 x = heap s1 x \<or> heap s2 x = withLinebreaks (heap s1 x)"
      by (auto simp: grows_def)
    then show ?thesis by (auto simp: withLinebreaks_idem)
  qed
  with assms show ?thesis by (auto simp: grows_def)
qed

lemma grows_query [simp]: "grows (query qs s) s' = grows s s'"
  by (simp add: grows_def)

subsection \<open>The effect of each method\<close>

lemma getAll_effect:
  assumes "cachesOK T s" and "getAllInlineToolsConfig T s = Inr (r, s')"
  shows "cachesOK T s' \<and> grows s s' \<and> inlineToolsConfigCache s' = Some r \<and>
         r < nextRef s' \<and> configCache s' = configCache s \<and>
         (\<forall>x. x < nextRef s \<longrightarrow> heap s' x = heap s x) \<and>
         (\<forall>r0. inlineToolsConfigCache s = Some r0 \<longrightarrow> r = r0 \<and> s' = s) \<and>
         (\<exists>qs. queries s' = queries s @ qs \<and> inlineQueries qs) \<and>
         (\<exists>u. allInlineRules T = Inr u \<and> (heap s' r = u \<or> heap s' r = withLinebreaks u))"
proof (cases "inlineToolsConfigCache s")
  case None
  with assms show ?thesis
    by (auto simp: getAllInlineToolsConfig_def newObject_def query_def cachesOK_def
        grows_def inlineQueries_def allInlineRules_def less_Suc_eq split: sum.splits)
next
  case (Some c)
  with assms show ?thesis
    by (auto simp: getAllInlineToolsConfig_def cachesOK_def grows_def inlineQueries_def)
qed

lemma getInline_effect:
  assumes ok: "cachesOK T s" and run: "getInlineToolsConfig T n s = Inr (r, s')"
  shows "cachesOK T s' \<and> grows s s' \<and> r < nextRef s' \<and>
         configCache s' = configCache s \<and>
         (\<forall>x. x < nextRef s \<longrightarrow> x \<noteq> r \<longrightarrow> heap s' x = heap s x) \<and>
         (\<exists>qs. queries s' = queries s @ QToolSettings n # qs \<and> inlineQueries qs) \<and>
         (enabledOrEmpty (inlineToolbar (getToolSettings T n)) = Flag True \<longrightarrow>
            inlineToolsConfigCache s' = Some r \<and>
            (\<exists>u. allInlineRules T = Inr u \<and> heap s' r = withLinebreaks u)) \<and>
         (\<forall>ns. enabledOrEmpty (inlineToolbar (getToolSettings T n)) = Names ns \<longrightarrow>
            inlineToolsConfigCache s' = inlineToolsConfigCache s \<and> r = nextRef s \<and>
            nextRef s' = Suc (nextRef s) \<and>
            (\<exists>u. assignEnabledTools T ns [] = Inr u \<and> heap s' r = withLinebreaks u))"
proof -
  obtain c s1 where new: "newObject (query [QToolSettings n] s) = (c, s1)"
    by (cases "newObject (query [QToolSettings n] s)")
  note n1 = newObject_effect [OF new, simplified]
  from ok have ok1: "cachesOK T s1" using cachesOK_newObject [OF _ new] by simp
  let ?e = "enabledOrEmpty (inlineToolbar (getToolSettings T n))"
  show ?thesis
  proof (cases "?e = Flag True")
    case True
    with run new obtain s2 where
      all: "getAllInlineToolsConfig T s1 = Inr (r, s2)" and s': "s' = allowLinebreaks r s2"
      by (auto simp: getInlineToolsConfig_def Let_def split: sum.splits)
    from getAll_effect [OF ok1 all] have
      e: "cachesOK T s2" "inlineToolsConfigCache s2 = Some r" "r < nextRef s2"
         "nextRef s1 \<le> nextRef s2" "configCache s2 = configCache s1"
         "\<forall>x. x < nextRef s1 \<longrightarrow> heap s2 x = heap s1 x"
         "\<forall>r0. inlineToolsConfigCache s1 = Some r0 \<longrightarrow> r = r0"
         "\<exists>qs. queries s2 = queries s1 @ qs \<and> inlineQueries qs"
         "\<exists>u. allInlineRules T = Inr u \<and> (heap s2 r = u \<or> heap s2 r = withLinebreaks u)"
      by (auto simp: grows_def)
    from e(1) have "cachesOK T s'" unfolding s' by (rule cachesOK_allowLinebreaks)
    moreover from e(9) have "\<exists>u. allInlineRules T = Inr u \<and> heap s' r = withLinebreaks u"
      by (auto simp: s' heap_allowLinebreaks withLinebreaks_idem)
    moreover have "\<forall>x. x < nextRef s \<longrightarrow> x \<noteq> r \<longrightarrow> heap s' x = heap s x"
      using e(6) n1 by (auto simp: s' heap_allowLinebreaks)
    moreover have "grows s s'"
      using e n1 by (auto simp: grows_def s' heap_allowLinebreaks)
    moreover have "\<exists>qs. queries s' = queries s @ QToolSettings n # qs \<and> inlineQueries qs"
      using e(8) n1 by (auto simp: s')
    ultimately show ?thesis using True e n1 by (auto simp: s')
  next
    case False
    with run new have run':
      "(case ?e of
          Names names \<Rightarrow>
            (case assignEnabledTools T names (heap s1 c) of
               Inl e \<Rightarrow> Inl e
             | Inr content \<Rightarrow>
                 Inr (c, allowLinebreaks c
                   ((query (map QInline names) s1)\<lparr>heap := (heap s1)(c := content)\<rparr>)))
        | _ \<Rightarrow> Inl TypeError) = Inr (r, s')"
      by (simp add: getInlineToolsConfig_def Let_def)
    then obtain ns where ns: "?e = Names ns" by (cases ?e) auto
    with run' obtain u where
      u: "assignEnabledTools T ns (heap s1 c) = Inr u" and
      r: "r = c" and
      s': "s' = allowLinebreaks c ((query (map QInline ns) s1)\<lparr>heap := (heap s1)(c := u)\<rparr>)"
      by (auto split: sum.splits)
    have "cachesOK T s'"
      using ok n1 unfolding s'
      by (auto simp: cachesOK_def heap_allowLinebreaks less_Suc_eq)
    moreover have "grows s s'"
      using n1 by (auto simp: grows_def s' heap_allowLinebreaks)
    moreover have "\<exists>qs. queries s' = queries s @ QToolSettings n # qs \<and> inlineQueries qs"
      using n1 by (auto simp: s' inlineQueries_def)
    ultimately show ?thesis using ns u r n1 by (auto simp: s' heap_allowLinebreaks)
  qed
qed

lemma objectPrototype_truthy: "objectPrototype k = Some v \<Longrightarrow> truthy v"
  by (auto simp: objectPrototype_def split: if_splits)

lemma compose_cached:
  "configCache s n = Some r0 \<Longrightarrow> composeToolConfig T n s = Inr (Ref r0, s)"
  by (simp add: composeToolConfig_def cacheGet_def)

lemma compose_inherited:
  "configCache s n = None \<Longrightarrow> objectPrototype n = Some v \<Longrightarrow>
   composeToolConfig T n s = Inr (Builtin v, s)"
  by (simp add: composeToolConfig_def cacheGet_def)

text \<open>
  For a tool with the name of a property that the cache object inherits,
  \<open>composeToolConfig\<close> returns the inherited value and composes nothing.
\<close>

lemma compose_constructor:
  "composeToolConfig T ''constructor'' initial = Inr (Builtin (JFun 0), initial)"
  by (simp add: compose_inherited initial_def objectPrototype_def)

lemma compose_uncached:
  assumes "configCache s n = None" and "objectPrototype n = None"
    and "composeToolConfig T n s = Inr (cfg, s')"
  shows "\<exists>b s1 own. getInlineToolsConfig T n (query [QAvailable n] s) = Inr (b, s1) \<and>
           noOwnRules T (objGet (available T) n) = Inr own \<and>
           (own \<longrightarrow> cfg = Ref b \<and> s' = s1) \<and>
           (\<not> own \<longrightarrow> (\<exists>toolRules.
              getProp (objGet (available T) n) ''sanitize'' = Inr toolRules \<and>
              cfg = Ref (nextRef s1) \<and>
              s' = s1\<lparr>heap := (heap s1)(nextRef s1 :=
                                composeFields (((heap s1)(nextRef s1 := [])) b) toolRules []),
                      nextRef := Suc (nextRef s1),
                      configCache := (configCache s1)(n \<mapsto> nextRef s1)\<rparr>))"
  using assms
  by (auto simp: composeToolConfig_def cacheGet_def Let_def newObject_def fun_upd_same
      simp del: fun_upd_apply split: sum.splits bool.splits)

lemma compose_effect:
  assumes ok: "cachesOK T s" and run: "composeToolConfig T n s = Inr (cfg, s')"
  shows "cachesOK T s' \<and> grows s s' \<and> (\<forall>r. cfg = Ref r \<longrightarrow> r < nextRef s')"
proof (cases "cacheGet s n")
  case (Some c0)
  with run have "cfg = c0" "s' = s" by (simp_all add: composeToolConfig_def)
  with Some ok show ?thesis
    by (auto simp: cacheGet_def cachesOK_def grows_refl split: option.splits)
next
  case None
  then have none: "configCache s n = None" "objectPrototype n = None"
    by (auto simp: cacheGet_def split: option.splits)
  from compose_uncached [OF none run] obtain b s1 own where
    base: "getInlineToolsConfig T n (query [QAvailable n] s) = Inr (b, s1)" and
    no: "noOwnRules T (objGet (available T) n) = Inr own" and
    own: "own \<longrightarrow> cfg = Ref b \<and> s' = s1" and
    nown: "\<not> own \<longrightarrow> (\<exists>toolRules. cfg = Ref (nextRef s1) \<and>
              s' = s1\<lparr>heap := (heap s1)(nextRef s1 :=
                                composeFields (((heap s1)(nextRef s1 := [])) b) toolRules []),
                      nextRef := Suc (nextRef s1),
                      configCache := (configCache s1)(n \<mapsto> nextRef s1)\<rparr>)"
    by blast
  from ok have "cachesOK T (query [QAvailable n] s)" by simp
  from getInline_effect [OF this base] have
    e: "cachesOK T s1" "grows s s1" "b < nextRef s1" "configCache s1 = configCache s"
    by auto
  show ?thesis
  proof (cases own)
    case True
    with own e show ?thesis by auto
  next
    case False
    with nown obtain toolRules where r: "cfg = Ref (nextRef s1)" and
      s': "s' = s1\<lparr>heap := (heap s1)(nextRef s1 :=
                                composeFields (((heap s1)(nextRef s1 := [])) b) toolRules []),
                      nextRef := Suc (nextRef s1),
                      configCache := (configCache s1)(n \<mapsto> nextRef s1)\<rparr>"
      by blast
    from e(1) no False have "cachesOK T s'" unfolding s'
      by (auto simp: cachesOK_def less_Suc_eq)
    moreover have "grows s1 s'"
      using e(4) none by (auto simp: grows_def s')
    with e(2) have "grows s s'" by (rule grows_trans)
    ultimately show ?thesis by (auto simp: s' r)
  qed
qed

lemma sanitizeBlocks_effect:
  "cachesOK T s \<Longrightarrow> sanitizeBlocks T c bs s = Inr (bs', cs, s') \<Longrightarrow>
   cachesOK T s' \<and> grows s s'"
proof (induction bs arbitrary: s bs' cs)
  case Nil
  then show ?case by (simp add: grows_refl)
next
  case (Cons b bs)
  from Cons.prems(2) obtain r s1 bs1 cs1 where
    c: "composeToolConfig T (tool b) s = Inr (r, s1)" and
    rest: "sanitizeBlocks T c bs s1 = Inr (bs1, cs1, s')"
    by (auto split: sum.splits)
  from compose_effect [OF Cons.prems(1) c] have "cachesOK T s1" "grows s s1" by auto
  with Cons.IH [OF this(1) rest] show ?case by (auto intro: grows_trans)
qed

lemma session_effect:
  "session T s s' \<Longrightarrow> cachesOK T s \<Longrightarrow> cachesOK T s' \<and> grows s s'"
proof (induction rule: session.induct)
  case (start s)
  then show ?case by (simp add: grows_refl)
next
  case (getAll s s1 r s2)
  with getAll_effect [of T s1 r s2] show ?case by (auto intro: grows_trans)
next
  case (getInline s s1 n r s2)
  with getInline_effect [of T s1 n r s2] show ?case by (auto intro: grows_trans)
next
  case (compose s s1 n r s2)
  with compose_effect [of T s1 n r s2] show ?case by (auto intro: grows_trans)
next
  case (batch s s1 c bs bs' cs s2)
  with sanitizeBlocks_effect [of T s1 c bs bs' cs s2] show ?case by (auto intro: grows_trans)
qed

lemma session_cachesOK: "session T initial s \<Longrightarrow> cachesOK T s"
  using session_effect [of T initial s] by (simp add: cachesOK_initial)

lemma session_trans: "session T s1 s2 \<Longrightarrow> session T s s1 \<Longrightarrow> session T s s2"
  by (induction rule: session.induct) (auto intro: session.intros)

section \<open>The claims about the rule composer\<close>

lemma getInline_linebreaks:
  assumes "getInlineToolsConfig T n s = Inr (r, s')"
  shows "\<exists>s0. s' = allowLinebreaks r s0"
proof -
  obtain c s1 where new: "newObject (query [QToolSettings n] s) = (c, s1)"
    by (cases "newObject (query [QToolSettings n] s)")
  let ?e = "enabledOrEmpty (inlineToolbar (getToolSettings T n))"
  show ?thesis
  proof (cases "?e = Flag True")
    case True
    with assms new show ?thesis
      by (auto simp: getInlineToolsConfig_def Let_def split: sum.splits)
  next
    case False
    with assms new show ?thesis
      by (cases ?e) (auto simp: getInlineToolsConfig_def Let_def split: sum.splits)
  qed
qed

lemma getInline_allowed:
  assumes "getInlineToolsConfig T n s = Inr (r, s')"
  shows "lookup (heap s' r) ''br'' = Some (JBool True) \<and>
         lookup (heap s' r) ''wbr'' = Some (JBool True)"
  using getInline_linebreaks [OF assms]
  by (auto simp: heap_allowLinebreaks withLinebreaks_allowed)

text \<open>
  C3. The claim is that every rule set returned by \<open>composeToolConfig\<close> or
  \<open>getInlineToolsConfig\<close> maps \<open>br\<close> and \<open>wbr\<close> to \<open>true\<close>, whatever the declared or the
  base rules say. This holds of every rule set that \<open>getInlineToolsConfig\<close> returns,
  and of what \<open>composeToolConfig\<close> returns for a tool that declares no rules, which is
  that rule set; the tool's name is not the name of a property that the cache object
  inherits.
\<close>

theorem linebreaks_forced_in_inline_config:
  "(getInlineToolsConfig T n s = Inr (r, s') \<longrightarrow>
      lookup (heap s' r) ''br'' = Some (JBool True) \<and>
      lookup (heap s' r) ''wbr'' = Some (JBool True)) \<and>
   (session T initial s \<and> objectPrototype n = None \<and>
    noOwnRules T (objGet (available T) n) = Inr True \<and>
    composeToolConfig T n s = Inr (cfg, s2) \<longrightarrow>
      (\<exists>r2. cfg = Ref r2 \<and>
         lookup (heap s2 r2) ''br'' = Some (JBool True) \<and>
         lookup (heap s2 r2) ''wbr'' = Some (JBool True)))"
proof (rule conjI)
  show "getInlineToolsConfig T n s = Inr (r, s') \<longrightarrow>
      lookup (heap s' r) ''br'' = Some (JBool True) \<and>
      lookup (heap s' r) ''wbr'' = Some (JBool True)"
    using getInline_allowed by blast
next
  show "session T initial s \<and> objectPrototype n = None \<and>
    noOwnRules T (objGet (available T) n) = Inr True \<and>
    composeToolConfig T n s = Inr (cfg, s2) \<longrightarrow>
      (\<exists>r2. cfg = Ref r2 \<and>
         lookup (heap s2 r2) ''br'' = Some (JBool True) \<and>
         lookup (heap s2 r2) ''wbr'' = Some (JBool True))"
  proof
    assume a: "session T initial s \<and> objectPrototype n = None \<and>
      noOwnRules T (objGet (available T) n) = Inr True \<and>
      composeToolConfig T n s = Inr (cfg, s2)"
    then have "cachesOK T s" by (simp add: session_cachesOK)
    with a have none: "configCache s n = None"
      by (cases "configCache s n") (auto simp: cachesOK_def)
    from a have proto: "objectPrototype n = None" and
      run: "composeToolConfig T n s = Inr (cfg, s2)" by simp_all
    from compose_uncached [OF none proto run] a obtain b where
      cfg: "cfg = Ref b" and
      "getInlineToolsConfig T n (query [QAvailable n] s) = Inr (b, s2)"
      by auto
    from getInline_allowed [OF this(2)] cfg
    show "\<exists>r2. cfg = Ref r2 \<and>
         lookup (heap s2 r2) ''br'' = Some (JBool True) \<and>
         lookup (heap s2 r2) ''wbr'' = Some (JBool True)"
      by simp
  qed
qed

lemmas example_simps =
  exampleTools_def initial_def getInlineToolsConfig_def getAllInlineToolsConfig_def
  composeToolConfig_def cacheGet_def objectPrototype_def configValue_def newObject_def
  query_def allowLinebreaks_def heapSet_def noOwnRules_def objGet_def protoGet_def
  lookup_def objAssign_def composeFields_def composeField_def isEmpty_def returned_def
  Let_def

theorem linebreaks_forced_in_inline_config_witness:
  "(\<exists>r s'. getInlineToolsConfig exampleTools ''header'' initial = Inr (r, s') \<and>
      lookup (heap s' r) ''br'' = Some (JBool True) \<and>
      lookup (heap s' r) ''wbr'' = Some (JBool True)) \<and>
   (\<exists>r s'. session exampleTools initial initial \<and>
      objectPrototype ''plain'' = None \<and>
      noOwnRules exampleTools (objGet (available exampleTools) ''plain'') = Inr True \<and>
      composeToolConfig exampleTools ''plain'' initial = Inr (Ref r, s') \<and>
      lookup (heap s' r) ''br'' = Some (JBool True) \<and>
      lookup (heap s' r) ''wbr'' = Some (JBool True))"
proof -
  obtain r1 s1 where
    run1: "getInlineToolsConfig exampleTools ''header'' initial = Inr (r1, s1)"
    by (simp add: example_simps)
  obtain cfg s2 where
    run2: "composeToolConfig exampleTools ''plain'' initial = Inr (cfg, s2)"
    by (simp add: example_simps)
  have no: "noOwnRules exampleTools (objGet (available exampleTools) ''plain'') = Inr True"
    by (simp add: example_simps)
  have proto: "objectPrototype ''plain'' = None" by (simp add: objectPrototype_def)
  have st: "session exampleTools initial initial" by (rule session.start)
  from linebreaks_forced_in_inline_config [of exampleTools "''header''" initial r1 s1] run1
  have "lookup (heap s1 r1) ''br'' = Some (JBool True) \<and>
        lookup (heap s1 r1) ''wbr'' = Some (JBool True)" by blast
  moreover
  from linebreaks_forced_in_inline_config
    [of exampleTools "''plain''" initial _ _ cfg s2] run2 no st proto
  obtain r2 where "cfg = Ref r2"
    "lookup (heap s2 r2) ''br'' = Some (JBool True) \<and>
     lookup (heap s2 r2) ''wbr'' = Some (JBool True)" by blast
  ultimately show ?thesis using run1 run2 no st proto by blast
qed

theorem composed_config_linebreaks_counterexample:
  "returned (composeToolConfig exampleTools ''strict'' initial) =
     Some (JObj [(''text'', JObj [(''a'', JObj [(''href'', JBool True)]), (''b'', JObj []),
                                 (''br'', JBool False), (''wbr'', JBool True)])]) \<and>
   lookup [(''text'', JObj [(''a'', JObj [(''href'', JBool True)]), (''b'', JObj []),
                           (''br'', JBool False), (''wbr'', JBool True)])] ''br'' = None \<and>
   lookup [(''a'', JObj [(''href'', JBool True)]), (''b'', JObj []),
           (''br'', JBool False), (''wbr'', JBool True)] ''br'' = Some (JBool False)"
  by (simp add: example_simps)

text \<open>
  C9. When the settings of a tool enable all inline tools, the object that
  \<open>getInlineToolsConfig\<close> returns is the object held in the cache of
  \<open>getAllInlineToolsConfig\<close>, and the two line-break entries are written into that
  object. In every later state of the session \<open>getAllInlineToolsConfig\<close> returns this
  object, which holds the merged rules of the inline tools with \<open>br\<close> and \<open>wbr\<close> set to
  \<open>true\<close>.
\<close>

theorem inline_cache_object_gets_linebreaks:
  assumes "session T initial s"
    and "inlineToolbar (getToolSettings T n) = Flag True"
    and "getInlineToolsConfig T n s = Inr (r, s')"
    and "session T s' s''"
  shows "inlineToolsConfigCache s' = Some r \<and>
         getAllInlineToolsConfig T s'' = Inr (r, s'') \<and>
         (\<exists>u. allInlineRules T = Inr u \<and> heap s'' r = withLinebreaks u) \<and>
         lookup (heap s'' r) ''br'' = Some (JBool True) \<and>
         lookup (heap s'' r) ''wbr'' = Some (JBool True)"
proof -
  from assms(1) have ok: "cachesOK T s" by (rule session_cachesOK)
  from getInline_effect [OF ok assms(3)] assms(2) obtain u where
    ok': "cachesOK T s'" and cache: "inlineToolsConfigCache s' = Some r" and
    u: "allInlineRules T = Inr u" and h: "heap s' r = withLinebreaks u"
    by auto
  from ok' cache have r: "r < nextRef s'" by (simp add: cachesOK_def)
  from session_effect [OF assms(4) ok'] have g: "grows s' s''" by simp
  with cache have cache'': "inlineToolsConfigCache s'' = Some r" by (simp add: grows_def)
  from g r h have h'': "heap s'' r = withLinebreaks u"
    by (auto simp: grows_def withLinebreaks_idem)
  from cache'' have "getAllInlineToolsConfig T s'' = Inr (r, s'')"
    by (simp add: getAllInlineToolsConfig_def)
  with cache u h'' show ?thesis by (simp add: withLinebreaks_allowed)
qed

theorem inline_cache_object_gets_linebreaks_witness:
  "\<exists>r s' r2 s''.
     session exampleTools initial initial \<and>
     inlineToolbar (getToolSettings exampleTools ''strict'') = Flag True \<and>
     getInlineToolsConfig exampleTools ''strict'' initial = Inr (r, s') \<and>
     composeToolConfig exampleTools ''strict'' s' = Inr (r2, s'') \<and>
     session exampleTools s' s'' \<and>
     inlineToolsConfigCache s' = Some r \<and>
     getAllInlineToolsConfig exampleTools s'' = Inr (r, s'') \<and>
     heap s'' r = [(''a'', JObj [(''href'', JBool True)]), (''b'', JObj []),
                   (''br'', JBool True), (''wbr'', JBool True)] \<and>
     lookup (heap s'' r) ''br'' = Some (JBool True) \<and>
     lookup (heap s'' r) ''wbr'' = Some (JBool True)"
proof -
  obtain r s' r2 s'' where
    run1: "getInlineToolsConfig exampleTools ''strict'' initial = Inr (r, s')" and
    run2: "composeToolConfig exampleTools ''strict'' s' = Inr (r2, s'')"
    by (simp add: example_simps)
  have flag: "inlineToolbar (getToolSettings exampleTools ''strict'') = Flag True"
    by (simp add: exampleTools_def)
  have st: "session exampleTools initial initial" by (rule session.start)
  have later: "session exampleTools s' s''"
    by (rule session.compose [OF session.start run2])
  have u: "allInlineRules exampleTools = Inr [(''a'', JObj [(''href'', JBool True)]),
      (''b'', JObj []), (''br'', JBool False)]"
    by (simp add: allInlineRules_def example_simps)
  from inline_cache_object_gets_linebreaks [OF st flag run1 later] u
  have "inlineToolsConfigCache s' = Some r \<and>
         getAllInlineToolsConfig exampleTools s'' = Inr (r, s'') \<and>
         heap s'' r = [(''a'', JObj [(''href'', JBool True)]), (''b'', JObj []),
                   (''br'', JBool True), (''wbr'', JBool True)] \<and>
         lookup (heap s'' r) ''br'' = Some (JBool True) \<and>
         lookup (heap s'' r) ''wbr'' = Some (JBool True)"
    by (auto simp: withLinebreaks_def)
  with st flag run1 run2 later show ?thesis by blast
qed

text \<open>
  C8. \<open>sanitizeBlocks\<close> returns as many blocks as it got, each with its tool. For
  every block it composes the rule set of the block's tool, in the state that the
  blocks before it have left; when that rule set is empty the block comes back as it
  is, otherwise its data is what \<open>deepSanitize\<close> returns for the data and the
  composed rule set.
\<close>

theorem sanitizeBlocks_entries:
  assumes "sanitizeBlocks T c bs s = Inr (bs', cs, s')"
  shows "length bs' = length bs \<and>
         (\<forall>i<length bs.
            tool (bs' ! i) = tool (bs ! i) \<and>
            (\<exists>si cfg si'. session T s si \<and>
               composeToolConfig T (tool (bs ! i)) si = Inr (cfg, si') \<and>
               (if isEmpty (configValue si' cfg) then bs' ! i = bs ! i
                else (\<exists>d l. deepSanitize c (data (bs ! i)) (configValue si' cfg) = Inr (d, l) \<and>
                        bs' ! i = (bs ! i)\<lparr>data := d\<rparr>))))"
  using assms
proof (induction bs arbitrary: s bs' cs)
  case Nil
  then show ?case by simp
next
  case (Cons b bs)
  from Cons.prems obtain r s1 b' l1 bs1 l2 where
    c: "composeToolConfig T (tool b) s = Inr (r, s1)" and
    b': "sanitizeBlock c (configValue s1 r) b = Inr (b', l1)" and
    rest: "sanitizeBlocks T c bs s1 = Inr (bs1, l2, s')" and
    res: "bs' = b' # bs1"
    by (auto split: sum.splits)
  note IH = Cons.IH [OF rest]
  have step: "session T s s1" by (rule session.compose [OF session.start c])
  have head: "tool b' = tool b \<and>
      (if isEmpty (configValue s1 r) then b' = b
       else (\<exists>d l. deepSanitize c (data b) (configValue s1 r) = Inr (d, l) \<and>
               b' = b\<lparr>data := d\<rparr>))"
    using b' by (auto simp: sanitizeBlock_def split: if_splits sum.splits)
  show ?case
  proof (intro conjI allI impI)
    show "length bs' = length (b # bs)" using IH res by simp
  next
    fix i assume i: "i < length (b # bs)"
    show "tool (bs' ! i) = tool ((b # bs) ! i)"
      using IH res head i by (cases i) auto
    show "\<exists>si cfg si'. session T s si \<and>
               composeToolConfig T (tool ((b # bs) ! i)) si = Inr (cfg, si') \<and>
               (if isEmpty (configValue si' cfg) then bs' ! i = (b # bs) ! i
                else (\<exists>d l. deepSanitize c (data ((b # bs) ! i)) (configValue si' cfg)
                          = Inr (d, l) \<and>
                        bs' ! i = ((b # bs) ! i)\<lparr>data := d\<rparr>))"
    proof (cases i)
      case 0
      with c head res have "session T s s \<and>
               composeToolConfig T (tool ((b # bs) ! i)) s = Inr (r, s1) \<and>
               (if isEmpty (configValue s1 r) then bs' ! i = (b # bs) ! i
                else (\<exists>d l. deepSanitize c (data ((b # bs) ! i)) (configValue s1 r)
                          = Inr (d, l) \<and>
                        bs' ! i = ((b # bs) ! i)\<lparr>data := d\<rparr>))"
        by (auto simp: session.start split: if_splits)
      then show ?thesis by blast
    next
      case (Suc j)
      with i have "j < length bs" by simp
      with IH obtain si r' si' where
        si: "session T s1 si" and
        cj: "composeToolConfig T (tool (bs ! j)) si = Inr (r', si')" and
        dj: "if isEmpty (configValue si' r') then bs1 ! j = bs ! j
             else (\<exists>d l. deepSanitize c (data (bs ! j)) (configValue si' r') = Inr (d, l) \<and>
                     bs1 ! j = (bs ! j)\<lparr>data := d\<rparr>)"
        by blast
      from session_trans [OF si step] have "session T s si" .
      with cj dj Suc res have "session T s si \<and>
               composeToolConfig T (tool ((b # bs) ! i)) si = Inr (r', si') \<and>
               (if isEmpty (configValue si' r') then bs' ! i = (b # bs) ! i
                else (\<exists>d l. deepSanitize c (data ((b # bs) ! i)) (configValue si' r')
                          = Inr (d, l) \<and>
                        bs' ! i = ((b # bs) ! i)\<lparr>data := d\<rparr>))"
        by (auto split: if_splits)
      then show ?thesis by blast
    qed
  qed
qed

theorem sanitizeBlocks_entries_witness:
  "\<exists>bs' cs s'.
     sanitizeBlocks exampleTools (\<lambda>s r. ''clean'')
       [\<lparr>tool = ''paragraph'', data = JObj [(''f'', JStr ''<i>x</i>'')]\<rparr>,
        \<lparr>tool = ''raw'', data = JStr ''<i>y</i>''\<rparr>] initial = Inr (bs', cs, s') \<and>
     bs' = [\<lparr>tool = ''paragraph'', data = JObj [(''f'', JStr ''clean'')]\<rparr>,
            \<lparr>tool = ''raw'', data = JStr ''<i>y</i>''\<rparr>] \<and>
     length bs' = 2 \<and>
     tool (bs' ! 1) = ''raw'' \<and>
     (\<exists>si cfg si'. session exampleTools initial si \<and>
        composeToolConfig exampleTools ''raw'' si = Inr (cfg, si') \<and>
        (if isEmpty (configValue si' cfg) then bs' ! 1 = \<lparr>tool = ''raw'', data = JStr ''<i>y</i>''\<rparr>
         else (\<exists>d l. deepSanitize (\<lambda>s r. ''clean'') (JStr ''<i>y</i>'') (configValue si' cfg)
                   = Inr (d, l) \<and>
                 bs' ! 1 = \<lparr>tool = ''raw'', data = d\<rparr>)))"
proof -
  let ?c = "\<lambda>(s::string) (r::jsval). ''clean''"
  let ?bs = "[\<lparr>tool = ''paragraph'', data = JObj [(''f'', JStr ''<i>x</i>'')]\<rparr>,
        \<lparr>tool = ''raw'', data = JStr ''<i>y</i>''\<rparr>]"
  obtain bs' cs s' where
    run: "sanitizeBlocks exampleTools ?c ?bs initial = Inr (bs', cs, s')" and
    bs': "bs' = [\<lparr>tool = ''paragraph'', data = JObj [(''f'', JStr ''clean'')]\<rparr>,
            \<lparr>tool = ''raw'', data = JStr ''<i>y</i>''\<rparr>]"
    by (simp add: example_simps sanitizeBlock_def isRule_def cleanOneItem_def clean_def)
  from sanitizeBlocks_entries [OF run]
  have len: "length bs' = length ?bs" and
    all: "\<forall>i<length ?bs.
            tool (bs' ! i) = tool (?bs ! i) \<and>
            (\<exists>si cfg si'. session exampleTools initial si \<and>
               composeToolConfig exampleTools (tool (?bs ! i)) si = Inr (cfg, si') \<and>
               (if isEmpty (configValue si' cfg) then bs' ! i = ?bs ! i
                else (\<exists>d l. deepSanitize ?c (data (?bs ! i)) (configValue si' cfg) = Inr (d, l) \<and>
                        bs' ! i = (?bs ! i)\<lparr>data := d\<rparr>)))"
    by blast+
  from spec [OF all, of 1] have inst: "tool (bs' ! 1) = tool (?bs ! 1) \<and>
            (\<exists>si cfg si'. session exampleTools initial si \<and>
               composeToolConfig exampleTools (tool (?bs ! 1)) si = Inr (cfg, si') \<and>
               (if isEmpty (configValue si' cfg) then bs' ! 1 = ?bs ! 1
                else (\<exists>d l. deepSanitize ?c (data (?bs ! 1)) (configValue si' cfg) = Inr (d, l) \<and>
                        bs' ! 1 = (?bs ! 1)\<lparr>data := d\<rparr>)))"
    by simp
  have nth: "?bs ! 1 = \<lparr>tool = ''raw'', data = JStr ''<i>y</i>''\<rparr>" by simp
  have sel: "tool \<lparr>tool = ''raw'', data = JStr ''<i>y</i>''\<rparr> = ''raw''"
    "data \<lparr>tool = ''raw'', data = JStr ''<i>y</i>''\<rparr> = JStr ''<i>y</i>''"
    by simp_all
  have upd: "\<lparr>tool = ''raw'', data = JStr ''<i>y</i>''\<rparr>\<lparr>data := d\<rparr>
      = \<lparr>tool = ''raw'', data = d\<rparr>" for d
    by simp
  from inst have one: "tool (bs' ! 1) = ''raw'' \<and>
     (\<exists>si cfg si'. session exampleTools initial si \<and>
        composeToolConfig exampleTools ''raw'' si = Inr (cfg, si') \<and>
        (if isEmpty (configValue si' cfg) then bs' ! 1 = \<lparr>tool = ''raw'', data = JStr ''<i>y</i>''\<rparr>
         else (\<exists>d l. deepSanitize ?c (JStr ''<i>y</i>'') (configValue si' cfg) = Inr (d, l) \<and>
                 bs' ! 1 = \<lparr>tool = ''raw'', data = d\<rparr>)))"
    unfolding nth sel upd .
  from len have "length bs' = 2" by simp
  with run bs' one show ?thesis by blast
qed

lemma lookup_eq: "lookup kvs = map_of kvs"
  by (rule ext) (simp add: lookup_def)

lemma enabledOrEmpty_cases:
  "enabledOrEmpty e = Flag True \<or> (\<exists>ns. enabledOrEmpty e = Names ns)"
  by (cases e rule: enabledOrEmpty.cases) auto





lemma inlineQueries_count:
  "inlineQueries qs \<Longrightarrow>
   count_list qs (QAvailable n) = 0 \<and> count_list qs (QToolSettings n) = 0"
  by (induction qs) (auto simp: inlineQueries_def)

text \<open>
  A second call of \<open>getInlineToolsConfig\<close> for the same tool returns an object with
  the same properties, and leaves those of the first object as they are.
\<close>

lemma getInline_again:
  assumes ok: "cachesOK T s" and run: "getInlineToolsConfig T n s = Inr (r, s')"
  shows "\<exists>r2 s2. getInlineToolsConfig T n (query qs s') = Inr (r2, s2) \<and>
           heap s2 r2 = heap s' r \<and> heap s2 r = heap s' r"
proof -
  note eff = getInline_effect [OF ok run]
  let ?e = "enabledOrEmpty (inlineToolbar (getToolSettings T n))"
  from eff have r: "r < nextRef s'" by simp
  show ?thesis
  proof (cases "?e = Flag True")
    case True
    with eff obtain u where
      cache: "inlineToolsConfigCache s' = Some r" and h: "heap s' r = withLinebreaks u"
      by auto
    from True cache r h show ?thesis
      by (simp add: getInlineToolsConfig_def getAllInlineToolsConfig_def newObject_def
          heap_allowLinebreaks withLinebreaks_idem)
  next
    case False
    with enabledOrEmpty_cases [of "inlineToolbar (getToolSettings T n)"]
    obtain ns where ns: "?e = Names ns" by auto
    with eff obtain u where
      u: "assignEnabledTools T ns [] = Inr u" and h: "heap s' r = withLinebreaks u"
      by auto
    from ns u r h show ?thesis
      by (simp add: getInlineToolsConfig_def newObject_def heap_allowLinebreaks)
  qed
qed

text \<open>
  C4. The claim is that for every tool two calls of \<open>composeToolConfig\<close> return deeply
  equal values, that the registry is queried at most once for the tool across the two
  calls and that the second call returns the cached object. The two values are
  equal. The cache holds only what was composed from a tool's own rules. For a tool
  that declares rules, the second call returns the object of the first and leaves the
  state, with the log of registry queries, as it is, so that the tool class and the
  tool's settings are each read at most once over the two calls. For a tool that
  declares no rules, and whose name is not the name of a property that the cache
  object inherits, nothing is stored in the cache, and the second call reads the tool
  class and the tool's settings from the registry again.
\<close>

theorem composeToolConfig_twice:
  assumes "session T initial s" and "composeToolConfig T n s = Inr (cfg1, s1)"
  shows "\<exists>cfg2 s2. composeToolConfig T n s1 = Inr (cfg2, s2) \<and>
           configValue s2 cfg2 = configValue s1 cfg1 \<and>
           configValue s2 cfg1 = configValue s1 cfg1 \<and>
           (noOwnRules T (objGet (available T) n) = Inr False \<longrightarrow>
              cfg2 = cfg1 \<and> s2 = s1 \<and>
              (\<exists>qs. queries s2 = queries s @ qs \<and>
                 count_list qs (QAvailable n) \<le> 1 \<and>
                 count_list qs (QToolSettings n) \<le> 1)) \<and>
           (noOwnRules T (objGet (available T) n) = Inr True \<and> objectPrototype n = None \<longrightarrow>
              configCache s2 n = None \<and>
              (\<exists>qs. queries s2 = queries s1 @ QAvailable n # QToolSettings n # qs))"
proof (cases "cacheGet s n")
  case (Some c0)
  from assms(1) have ok: "cachesOK T s" by (rule session_cachesOK)
  from Some assms(2) have eq: "cfg1 = c0" "s1 = s" by (simp_all add: composeToolConfig_def)
  with Some have second: "composeToolConfig T n s1 = Inr (cfg1, s1)"
    by (simp add: composeToolConfig_def)
  have "\<not> (noOwnRules T (objGet (available T) n) = Inr True \<and> objectPrototype n = None)"
    using Some ok by (auto simp: cacheGet_def cachesOK_def split: option.splits)
  with second eq show ?thesis by auto
next
  case None
  then have none: "configCache s n = None" "objectPrototype n = None"
    by (auto simp: cacheGet_def split: option.splits)
  from assms(1) have ok: "cachesOK T s" by (rule session_cachesOK)
  then have ok0: "cachesOK T (query [QAvailable n] s)" by simp
  from compose_uncached [OF none assms(2)] obtain b sA own where
    base: "getInlineToolsConfig T n (query [QAvailable n] s) = Inr (b, sA)" and
    no: "noOwnRules T (objGet (available T) n) = Inr own" and
    own: "own \<longrightarrow> cfg1 = Ref b \<and> s1 = sA" and
    nown: "\<not> own \<longrightarrow> (\<exists>toolRules. cfg1 = Ref (nextRef sA) \<and>
              s1 = sA\<lparr>heap := (heap sA)(nextRef sA :=
                                composeFields (((heap sA)(nextRef sA := [])) b) toolRules []),
                      nextRef := Suc (nextRef sA),
                      configCache := (configCache sA)(n \<mapsto> nextRef sA)\<rparr>)"
    by blast
  from getInline_effect [OF ok0 base] obtain qs where
    okA: "cachesOK T sA" and
    cc: "configCache sA = configCache s" and
    q: "queries sA = queries s @ QAvailable n # QToolSettings n # qs" and
    iq: "inlineQueries qs"
    by auto
  show ?thesis
  proof (cases own)
    case True
    with own have eq: "cfg1 = Ref b" "s1 = sA" by simp_all
    from getInline_again [OF ok0 base, of "[QAvailable n]"] obtain r2 s2 where
      again: "getInlineToolsConfig T n (query [QAvailable n] sA) = Inr (r2, s2)" and
      h: "heap s2 r2 = heap sA b" "heap s2 b = heap sA b"
      by blast
    from okA have "cachesOK T (query [QAvailable n] sA)" by simp
    from getInline_effect [OF this again] obtain qs2 where
      cc2: "configCache s2 = configCache sA" and
      q2: "queries s2 = queries sA @ QAvailable n # QToolSettings n # qs2"
      by auto
    from none cc again no True have "composeToolConfig T n sA = Inr (Ref r2, s2)"
      by (simp add: composeToolConfig_def cacheGet_def)
    moreover from cc cc2 none have "configCache s2 n = None" by simp
    ultimately show ?thesis using h eq no True q2
      by (simp add: configValue_def)
  next
    case False
    with nown obtain toolRules where r1: "cfg1 = Ref (nextRef sA)" and
      s1: "s1 = sA\<lparr>heap := (heap sA)(nextRef sA :=
                                composeFields (((heap sA)(nextRef sA := [])) b) toolRules []),
                      nextRef := Suc (nextRef sA),
                      configCache := (configCache sA)(n \<mapsto> nextRef sA)\<rparr>"
      by blast
    have "configCache s1 n = Some (nextRef sA)" by (simp add: s1)
    then have second: "composeToolConfig T n s1 = Inr (cfg1, s1)"
      unfolding r1 by (rule compose_cached)
    have "queries s1 = queries s @ QAvailable n # QToolSettings n # qs"
      using q by (simp add: s1)
    moreover have "count_list (QAvailable n # QToolSettings n # qs) (QAvailable n) \<le> 1"
      "count_list (QAvailable n # QToolSettings n # qs) (QToolSettings n) \<le> 1"
      using inlineQueries_count [OF iq, of n] by simp_all
    ultimately show ?thesis using second no False by auto
  qed
qed

theorem composeToolConfig_twice_witness:
  "(\<exists>cfg1 s1 cfg2 s2.
     session exampleTools initial initial \<and>
     composeToolConfig exampleTools ''paragraph'' initial = Inr (cfg1, s1) \<and>
     composeToolConfig exampleTools ''paragraph'' s1 = Inr (cfg2, s2) \<and>
     noOwnRules exampleTools (objGet (available exampleTools) ''paragraph'') = Inr False \<and>
     configValue s2 cfg2 = configValue s1 cfg1 \<and> cfg2 = cfg1 \<and> s2 = s1 \<and>
     (\<exists>qs. queries s2 = queries initial @ qs \<and>
        count_list qs (QAvailable ''paragraph'') \<le> 1 \<and>
        count_list qs (QToolSettings ''paragraph'') \<le> 1)) \<and>
   (\<exists>cfg1 s1 cfg2 s2.
     composeToolConfig exampleTools ''plain'' initial = Inr (cfg1, s1) \<and>
     composeToolConfig exampleTools ''plain'' s1 = Inr (cfg2, s2) \<and>
     noOwnRules exampleTools (objGet (available exampleTools) ''plain'') = Inr True \<and>
     objectPrototype ''plain'' = None \<and>
     configValue s2 cfg2 = configValue s1 cfg1 \<and>
     configCache s2 ''plain'' = None \<and>
     (\<exists>qs. queries s2 = queries s1 @ QAvailable ''plain'' # QToolSettings ''plain'' # qs))"
proof -
  have st: "session exampleTools initial initial" by (rule session.start)
  obtain cfg1 s1 where
    run1: "composeToolConfig exampleTools ''paragraph'' initial = Inr (cfg1, s1)"
    by (simp add: example_simps)
  have no1: "noOwnRules exampleTools (objGet (available exampleTools) ''paragraph'') = Inr False"
    by (simp add: example_simps)
  obtain cfg3 s3 where
    run3: "composeToolConfig exampleTools ''plain'' initial = Inr (cfg3, s3)"
    by (simp add: example_simps)
  have no3: "noOwnRules exampleTools (objGet (available exampleTools) ''plain'') = Inr True"
    by (simp add: example_simps)
  have proto: "objectPrototype ''plain'' = None" by (simp add: objectPrototype_def)
  from composeToolConfig_twice [OF st run1] no1 run1 st
  have first: "\<exists>cfg1 s1 cfg2 s2.
     session exampleTools initial initial \<and>
     composeToolConfig exampleTools ''paragraph'' initial = Inr (cfg1, s1) \<and>
     composeToolConfig exampleTools ''paragraph'' s1 = Inr (cfg2, s2) \<and>
     noOwnRules exampleTools (objGet (available exampleTools) ''paragraph'') = Inr False \<and>
     configValue s2 cfg2 = configValue s1 cfg1 \<and> cfg2 = cfg1 \<and> s2 = s1 \<and>
     (\<exists>qs. queries s2 = queries initial @ qs \<and>
        count_list qs (QAvailable ''paragraph'') \<le> 1 \<and>
        count_list qs (QToolSettings ''paragraph'') \<le> 1)"
    by blast
  from composeToolConfig_twice [OF st run3] no3 run3 proto
  have "\<exists>cfg1 s1 cfg2 s2.
     composeToolConfig exampleTools ''plain'' initial = Inr (cfg1, s1) \<and>
     composeToolConfig exampleTools ''plain'' s1 = Inr (cfg2, s2) \<and>
     noOwnRules exampleTools (objGet (available exampleTools) ''plain'') = Inr True \<and>
     objectPrototype ''plain'' = None \<and>
     configValue s2 cfg2 = configValue s1 cfg1 \<and>
     configCache s2 ''plain'' = None \<and>
     (\<exists>qs. queries s2 = queries s1 @ QAvailable ''plain'' # QToolSettings ''plain'' # qs)"
    by blast
  with first show ?thesis by blast
qed

theorem composeToolConfig_twice_counterexample:
  "case composeToolConfig exampleTools ''plain'' initial of
     Inl e \<Rightarrow> False
   | Inr (cfg1, s1) \<Rightarrow>
       (case composeToolConfig exampleTools ''plain'' s1 of
          Inl e \<Rightarrow> False
        | Inr (cfg2, s2) \<Rightarrow>
            cfg2 \<noteq> cfg1 \<and> configCache s1 ''plain'' = None \<and>
            queries s1 = [QAvailable ''plain'', QToolSettings ''plain''] \<and>
            queries s2 = [QAvailable ''plain'', QToolSettings ''plain'',
                          QAvailable ''plain'', QToolSettings ''plain''])"
  by (simp add: example_simps)

lemma composeFields_lookup:
  assumes "distinct (map fst toolRules)" and "(f, rule) \<in> set toolRules"
  shows "lookup (composeFields base (JObj toolRules) []) f = Some (composeField base rule)"
proof -
  have "lookup (composeFields base (JObj toolRules) [])
      = lookup [] ++ map_of (map (\<lambda>(k, v). (k, composeField base v)) toolRules)"
    unfolding composeFields_def ownEntries.simps
    by (rule lookup_fold_setProp [OF assms(1)])
  moreover have "distinct (map fst (map (\<lambda>(k, v). (k, composeField base v)) toolRules))"
    using assms(1) by (simp add: case_prod_unfold comp_def)
  moreover have "(f, composeField base rule)
      \<in> set (map (\<lambda>(k, v). (k, composeField base v)) toolRules)"
    using assms(2) by force
  ultimately show ?thesis
    by (simp add: map_add_def)
qed

lemma getInline_distinct:
  assumes "cachesOK T s" and "getInlineToolsConfig T n s = Inr (r, s')"
  shows "distinct (map fst (heap s' r))"
proof -
  note eff = getInline_effect [OF assms]
  let ?e = "enabledOrEmpty (inlineToolbar (getToolSettings T n))"
  show ?thesis
  proof (cases "?e = Flag True")
    case True
    with eff obtain u where
      "allInlineRules T = Inr u" and h: "heap s' r = withLinebreaks u"
      by auto
    then have "distinct (map fst u)"
      using distinct_assignInlineTools [of T "inline T" "[]" u]
      by (simp add: allInlineRules_def)
    with h show ?thesis by (simp add: distinct_withLinebreaks)
  next
    case False
    with enabledOrEmpty_cases [of "inlineToolbar (getToolSettings T n)"]
    obtain ns where ns: "?e = Names ns" by auto
    with eff obtain u where
      u: "assignEnabledTools T ns [] = Inr u" and h: "heap s' r = withLinebreaks u"
      by auto
    from distinct_assignEnabledTools [OF u] have "distinct (map fst u)" by simp
    with h show ?thesis by (simp add: distinct_withLinebreaks)
  qed
qed

text \<open>
  C2. The claim is that a declared rule \<open>{a: true}\<close> for a field, composed over a base
  inline set containing \<open>{a: {href: true}, b: true}\<close>, yields \<open>{a: true, b: true}\<close> for
  the field. The base set that \<open>composeToolConfig\<close> merges into is the result of
  \<open>getInlineToolsConfig\<close>, which always holds \<open>br\<close> and \<open>wbr\<close>, so the field gets
  \<open>{a: true, b: true, br: true, wbr: true}\<close>. In general, when a tool declares an
  object as the rule of a field, the composed rule of the field has the entries of
  the declared rule, and for every other key the entry of the base set. The tool is
  composed for the first time, and its name is not the name of a property that the
  cache object inherits.
\<close>

theorem declared_field_rule_overrides_base:
  assumes "session T initial s"
    and "configCache s n = None"
    and "objectPrototype n = None"
    and "getInlineToolsConfig T n (query [QAvailable n] s) = Inr (b, s1)"
    and "composeToolConfig T n s = Inr (cfg, s')"
    and "noOwnRules T (objGet (available T) n) = Inr False"
    and "getProp (objGet (available T) n) ''sanitize'' = Inr (JObj toolRules)"
    and "distinct (map fst toolRules)"
    and "(f, JObj rule) \<in> set toolRules"
    and "distinct (map fst rule)"
  shows "\<exists>r fieldRule. cfg = Ref r \<and> lookup (heap s' r) f = Some (JObj fieldRule) \<and>
           lookup fieldRule = lookup (heap s1 b) ++ lookup rule"
proof -
  from assms(1) have "cachesOK T (query [QAvailable n] s)"
    by (simp add: session_cachesOK)
  note eff = getInline_effect [OF this assms(4)] and
    dist = getInline_distinct [OF this assms(4)]
  from eff have b: "b < nextRef s1" by simp
  from compose_uncached [OF assms(2,3,5)] obtain b' sA own where
    base': "getInlineToolsConfig T n (query [QAvailable n] s) = Inr (b', sA)" and
    no': "noOwnRules T (objGet (available T) n) = Inr own" and
    nown: "\<not> own \<longrightarrow> (\<exists>toolRules'.
              getProp (objGet (available T) n) ''sanitize'' = Inr toolRules' \<and>
              cfg = Ref (nextRef sA) \<and>
              s' = sA\<lparr>heap := (heap sA)(nextRef sA :=
                                composeFields (((heap sA)(nextRef sA := [])) b') toolRules' []),
                      nextRef := Suc (nextRef sA),
                      configCache := (configCache sA)(n \<mapsto> nextRef sA)\<rparr>)"
    by blast
  from base' no' assms(4,6) have same: "b' = b" "sA = s1" "\<not> own" by simp_all
  with nown assms(7) have r: "cfg = Ref (nextRef s1)" and
    s': "s' = s1\<lparr>heap := (heap s1)(nextRef s1 :=
                      composeFields (((heap s1)(nextRef s1 := [])) b) (JObj toolRules) []),
                  nextRef := Suc (nextRef s1),
                  configCache := (configCache s1)(n \<mapsto> nextRef s1)\<rparr>"
    by auto
  from b have h: "heap s' (nextRef s1) = composeFields (heap s1 b) (JObj toolRules) []"
    by (simp add: s')
  let ?fieldRule = "objAssign (objAssign [] (JObj (heap s1 b))) (JObj rule)"
  from composeFields_lookup [OF assms(8,9)] h
  have "lookup (heap s' (nextRef s1)) f = Some (JObj ?fieldRule)"
    by (simp add: composeField_def)
  moreover have "lookup ?fieldRule = (lookup [] ++ map_of (heap s1 b)) ++ map_of rule"
    using dist assms(10) by (simp add: lookup_objAssign)
  then have "lookup ?fieldRule = lookup (heap s1 b) ++ lookup rule"
    by (simp add: lookup_eq)
  ultimately show ?thesis using r by blast
qed

theorem declared_field_rule_overrides_base_witness:
  "\<exists>b s1 r s'.
     session exampleTools initial initial \<and>
     configCache initial ''paragraph'' = None \<and>
     objectPrototype ''paragraph'' = None \<and>
     getInlineToolsConfig exampleTools ''paragraph'' (query [QAvailable ''paragraph''] initial)
       = Inr (b, s1) \<and>
     heap s1 b = [(''a'', JObj [(''href'', JBool True)]), (''b'', JBool True),
                  (''br'', JBool True), (''wbr'', JBool True)] \<and>
     composeToolConfig exampleTools ''paragraph'' initial = Inr (Ref r, s') \<and>
     noOwnRules exampleTools (objGet (available exampleTools) ''paragraph'') = Inr False \<and>
     getProp (objGet (available exampleTools) ''paragraph'') ''sanitize''
       = Inr (JObj [(''f'', JObj [(''a'', JBool True)])]) \<and>
     distinct (map fst [(''f'', JObj [(''a'', JBool True)])]) \<and>
     (''f'', JObj [(''a'', JBool True)]) \<in> set [(''f'', JObj [(''a'', JBool True)])] \<and>
     distinct (map fst [(''a'', JBool True)]) \<and>
     lookup (heap s' r) ''f'' = Some (JObj [(''a'', JBool True), (''b'', JBool True),
                                           (''br'', JBool True), (''wbr'', JBool True)]) \<and>
     (\<exists>fieldRule. lookup (heap s' r) ''f'' = Some (JObj fieldRule) \<and>
        lookup fieldRule = lookup (heap s1 b) ++ lookup [(''a'', JBool True)])"
proof -
  obtain b s1 where
    base: "getInlineToolsConfig exampleTools ''paragraph''
             (query [QAvailable ''paragraph''] initial) = Inr (b, s1)" and
    hb: "heap s1 b = [(''a'', JObj [(''href'', JBool True)]), (''b'', JBool True),
                  (''br'', JBool True), (''wbr'', JBool True)]"
    by (simp add: example_simps)
  obtain r s' where
    run: "composeToolConfig exampleTools ''paragraph'' initial = Inr (Ref r, s')" and
    hr: "lookup (heap s' r) ''f'' = Some (JObj [(''a'', JBool True), (''b'', JBool True),
                                           (''br'', JBool True), (''wbr'', JBool True)])"
    by (simp add: example_simps)
  have st: "session exampleTools initial initial" by (rule session.start)
  have nc: "configCache initial ''paragraph'' = None" by (simp add: initial_def)
  have proto: "objectPrototype ''paragraph'' = None" by (simp add: objectPrototype_def)
  have no: "noOwnRules exampleTools (objGet (available exampleTools) ''paragraph'') = Inr False"
    by (simp add: example_simps)
  have san: "getProp (objGet (available exampleTools) ''paragraph'') ''sanitize''
       = Inr (JObj [(''f'', JObj [(''a'', JBool True)])])"
    by (simp add: example_simps)
  have d1: "distinct (map fst [(''f'', JObj [(''a'', JBool True)])])" by simp
  have m: "(''f'', JObj [(''a'', JBool True)]) \<in> set [(''f'', JObj [(''a'', JBool True)])]"
    by simp
  have d2: "distinct (map fst [(''a'', JBool True)])" by simp
  from declared_field_rule_overrides_base [OF st nc proto base run no san d1 m d2]
  have "\<exists>fieldRule. lookup (heap s' r) ''f'' = Some (JObj fieldRule) \<and>
        lookup fieldRule = lookup (heap s1 b) ++ lookup [(''a'', JBool True)]"
    by auto
  with st nc proto base hb run hr no san d1 m d2
  show ?thesis by blast
qed

theorem declared_field_rule_counterexample:
  "returned (composeToolConfig exampleTools ''paragraph'' initial) =
     Some (JObj [(''f'', JObj [(''a'', JBool True), (''b'', JBool True),
                              (''br'', JBool True), (''wbr'', JBool True)])]) \<and>
   JObj [(''a'', JBool True), (''b'', JBool True), (''br'', JBool True), (''wbr'', JBool True)]
     \<noteq> JObj [(''a'', JBool True), (''b'', JBool True)]"
  by (simp add: example_simps)

end
